(* ===== verification/Prelude.thy ===== *)
theory Prelude
  imports Main "HOL-Library.Word"
begin

text \<open>
  Shared vocabulary of the development: the machine types of the C sources
  (bytes, \<open>uint32_t\<close>, byte buffers), the errors a run of the container can end in,
  the theorem collections the component theories fill, and the generic lemmas on
  lists and words that the buffer proofs share.
\<close>

section \<open>Machine types\<close>

type_synonym byte = "8 word"
type_synonym u32 = "32 word"

text \<open>A heap block is the list of its bytes; its length is the size it was allocated with.\<close>

type_synonym buffer = "byte list"

section \<open>Errors\<close>

text \<open>
  How a run of the C code can end other than normally:
  \<^item> \<open>Assertion_failed e\<close>: an \<^verbatim>\<open>assert(e)\<close> of the source fails (a checked build
    aborts with the text of \<open>e\<close>);
  \<^item> \<open>Null_deref\<close>: a byte is read or written through a \<open>NULL\<close> \<open>contents\<close> pointer;
  \<^item> \<open>Out_of_bounds\<close>: a byte outside the allocated block is read or written
    (undefined behaviour in C, a heap overflow in practice).
\<close>

datatype error = Assertion_failed string | Null_deref | Out_of_bounds

text \<open>A computation that may fail: \<open>Inl\<close> carries the error.\<close>

type_synonym 'a result = "error + 'a"

text \<open>Sequencing: the first error ends the run, as an abort or a fault does.\<close>

definition res_bind :: "'a result \<Rightarrow> ('a \<Rightarrow> 'b result) \<Rightarrow> 'b result" where
  "res_bind r f = (case r of Inl e \<Rightarrow> Inl e | Inr x \<Rightarrow> f x)"

lemma res_bind_Inl [simp]: "res_bind (Inl e) f = Inl e"
  by (simp add: res_bind_def)

lemma res_bind_Inr [simp]: "res_bind (Inr x) f = f x"
  by (simp add: res_bind_def)

lemma res_bind_eq_Inr:
  "res_bind r f = Inr y \<longleftrightarrow> (\<exists>x. r = Inr x \<and> f x = Inr y)"
  by (cases r) auto

section \<open>Theorem collections\<close>

named_theorems buffer_simps "rewrite rules for byte-buffer writes"
named_theorems wrap_simps "rewrite rules for uint32 arithmetic that does not wrap"

section \<open>Lists\<close>

text \<open>Overwriting the segment \<open>[off, off + length d)\<close> of a list.\<close>

definition overwrite :: "nat \<Rightarrow> 'a list \<Rightarrow> 'a list \<Rightarrow> 'a list" where
  "overwrite off d xs = take off xs @ d @ drop (off + length d) xs"

lemma length_overwrite [simp]:
  "off + length d \<le> length xs \<Longrightarrow> length (overwrite off d xs) = length xs"
  by (simp add: overwrite_def)

lemma take_overwrite [buffer_simps]:
  "k \<le> off \<Longrightarrow> off \<le> length xs \<Longrightarrow> take k (overwrite off d xs) = take k xs"
  by (simp add: overwrite_def)

lemma drop_overwrite [buffer_simps]:
  "off + length d \<le> k \<Longrightarrow> off + length d \<le> length xs \<Longrightarrow>
   drop k (overwrite off d xs) = drop k xs"
  by (simp add: overwrite_def)

lemma nth_overwrite:
  "off + length d \<le> length xs \<Longrightarrow> i < length xs \<Longrightarrow>
   overwrite off d xs ! i =
     (if i < off then xs ! i else if i < off + length d then d ! (i - off) else xs ! i)"
  by (auto simp: overwrite_def nth_append min_def)

lemma overwrite_Nil [simp]: "overwrite off [] xs = xs"
  by (simp add: overwrite_def)

lemma take_overwrite_end [buffer_simps]:
  "off + length d \<le> length xs \<Longrightarrow> take (off + length d) (overwrite off d xs) = take off xs @ d"
  by (simp add: overwrite_def)

lemma take_drop_prefix:
  "take k xs = take k ys \<Longrightarrow> i + n \<le> k \<Longrightarrow> take n (drop i xs) = take n (drop i ys)"
  by (metis add.commute drop_take take_take diff_add_inverse2 le_diff_conv min_absorb1)

lemma overwrite_adjacent:
  "a + length N = b \<Longrightarrow> b + length T \<le> length xs \<Longrightarrow>
   overwrite a N (overwrite b T xs) = take a xs @ N @ T @ drop (b + length T) xs"
  by (simp add: overwrite_def)

lemma take_append3:
  "n = length a + length b + length c \<Longrightarrow> take n (a @ b @ c @ d) = a @ b @ c"
  by simp

lemma replicate_small:
  "replicate 2 x = [x, x]" "replicate 8 x = [x, x, x, x, x, x, x, x]"
  by (simp_all add: numeral_eq_Suc)

section \<open>Words\<close>

lemma unat_add_u32 [wrap_simps]:
  "unat (a :: u32) + unat b < 2 ^ 32 \<Longrightarrow> unat (a + b) = unat a + unat b"
  by (simp add: unat_word_ariths)

lemma unat_sub_u32 [wrap_simps]:
  "unat (b :: u32) \<le> unat a \<Longrightarrow> unat (a - b) = unat a - unat b"
  by (simp add: unat_sub word_le_nat_alt)

lemma unat_of_nat_u32 [wrap_simps]:
  "n < 2 ^ 32 \<Longrightarrow> unat (word_of_nat n :: u32) = n"
  by (simp add: unat_of_nat)

lemma unat_u32_bound [simp]: "unat (a :: u32) < 4294967296"
  using unsigned_less [of a] by simp

lemma le_unat_u32: "m \<le> unat (a :: u32) \<Longrightarrow> m < 2 ^ 32"
  using unat_u32_bound [of a] by (simp del: unat_u32_bound)

lemma unat_max_u32: "unat (max (a :: u32) b) = max (unat a) (unat b)"
  by (simp add: max_def word_le_nat_alt)

lemma word_of_int_less_u32:
  "0 \<le> i \<Longrightarrow> i < 2 ^ 32 \<Longrightarrow> ((word_of_int i :: u32) < w) = (i < uint w)"
  by (simp add: word_less_def uint_word_of_int)

lemma uint_minus_one_u32: "(w :: u32) \<noteq> 0 \<Longrightarrow> uint (w - 1) = uint w - 1"
proof -
  assume "w \<noteq> 0"
  then have "uint w \<noteq> 0" by (simp add: uint_0_iff)
  then have "1 \<le> uint w" using uint_ge_0 [of w] by linarith
  then show ?thesis by (simp add: uint_sub_if')
qed

lemma uint_less_of_unat: "unat (a :: u32) < unat b \<Longrightarrow> uint a < uint b"
  by (metis uint_nat of_nat_less_iff)

lemma uint_le_of_unat: "unat (a :: u32) \<le> unat b \<Longrightarrow> uint a \<le> uint b"
  by (metis uint_nat of_nat_le_iff)

lemma nat_less_unat: "0 \<le> i \<Longrightarrow> i < uint (w :: u32) \<Longrightarrow> nat i < unat w"
  by (metis nat_less_eq_zless nat_uint_eq)

lemma uint_of_unat_Suc: "unat (a :: u32) = Suc (unat b) \<Longrightarrow> uint a = uint b + 1"
  by (metis of_nat_Suc uint_nat add.commute)

end
