(* ===== verification/Libc.thy ===== *)
theory Libc
  imports Prelude
begin

text \<open>
  The C library functions the container calls, modelled from their contracts in the
  C standard (they are not code of this repository): \<^verbatim>\<open>memmove\<close>, \<^verbatim>\<open>memcpy\<close> and
  \<^verbatim>\<open>memset\<close> on a heap block, and the allocator triple \<^verbatim>\<open>malloc\<close>, \<^verbatim>\<open>realloc\<close>,
  \<^verbatim>\<open>free\<close> that an array instance stores.  A block is \<open>buffer option\<close>: \<open>None\<close> is the
  \<open>NULL\<close> pointer.  Each write is checked against the block: writing through \<open>NULL\<close>
  or past its end is an error value, not a silent no-op.  A call with length 0 does
  nothing (what every libc does, although the standard leaves a \<open>NULL\<close> argument
  undefined even then).
\<close>

section \<open>Byte copies\<close>

definition mem_store :: "nat \<Rightarrow> byte list \<Rightarrow> buffer option \<Rightarrow> buffer option result" where
  "mem_store off d p =
     (if d = [] then Inr p
      else case p of
        None \<Rightarrow> Inl Null_deref
      | Some buf \<Rightarrow>
          if off + length d \<le> length buf then Inr (Some (overwrite off d buf))
          else Inl Out_of_bounds)"

text \<open>
  \<^verbatim>\<open>memmove(p + dst, p + src, n)\<close>: the source bytes are read before any is written, so
  overlapping ranges are copied as if through a temporary (C11 7.24.2.2).
\<close>

definition memmove :: "buffer option \<Rightarrow> nat \<Rightarrow> nat \<Rightarrow> nat \<Rightarrow> buffer option result" where
  "memmove p dst src n =
     (if n = 0 then Inr p
      else case p of
        None \<Rightarrow> Inl Null_deref
      | Some buf \<Rightarrow>
          if src + n \<le> length buf then mem_store dst (take n (drop src buf)) p
          else Inl Out_of_bounds)"

text \<open>\<^verbatim>\<open>memcpy(p + dst, src, n)\<close> from a caller's object \<open>src\<close> (disjoint from the block).\<close>

definition memcpy :: "buffer option \<Rightarrow> nat \<Rightarrow> byte list \<Rightarrow> nat \<Rightarrow> buffer option result" where
  "memcpy p dst src n =
     (if n \<le> length src then mem_store dst (take n src) p else Inl Out_of_bounds)"

text \<open>\<^verbatim>\<open>memset(p + dst, c, n)\<close>.\<close>

definition memset :: "buffer option \<Rightarrow> nat \<Rightarrow> byte \<Rightarrow> nat \<Rightarrow> buffer option result" where
  "memset p dst c n = mem_store dst (replicate n c) p"

lemma mem_store_Some [buffer_simps]:
  "off + length d \<le> length buf \<Longrightarrow> mem_store off d (Some buf) = Inr (Some (overwrite off d buf))"
  by (simp add: mem_store_def)

lemma mem_store_Inr_iff:
  "mem_store off d p = Inr q \<longleftrightarrow>
     (d = [] \<and> q = p) \<or>
     (d \<noteq> [] \<and> (\<exists>buf. p = Some buf \<and> off + length d \<le> length buf \<and> q = Some (overwrite off d buf)))"
  by (auto simp: mem_store_def split: option.splits)

lemma memmove_Some [buffer_simps]:
  "src + n \<le> length buf \<Longrightarrow> dst + n \<le> length buf \<Longrightarrow>
   memmove (Some buf) dst src n = Inr (Some (overwrite dst (take n (drop src buf)) buf))"
  by (simp add: memmove_def mem_store_def)

lemma memcpy_Some [buffer_simps]:
  "n \<le> length src \<Longrightarrow> dst + n \<le> length buf \<Longrightarrow>
   memcpy (Some buf) dst src n = Inr (Some (overwrite dst (take n src) buf))"
  by (simp add: memcpy_def mem_store_def min_def)

lemma memset_Some [buffer_simps]:
  "dst + n \<le> length buf \<Longrightarrow>
   memset (Some buf) dst c n = Inr (Some (overwrite dst (replicate n c) buf))"
  by (simp add: memset_def mem_store_def)

lemma memset_None [buffer_simps]:
  "0 < n \<Longrightarrow> memset None dst c n = Inl Null_deref"
  by (simp add: memset_def mem_store_def)

text \<open>A byte copy faults, but never fails an assertion of the caller.\<close>

lemma mem_store_not_assert [simp]: "mem_store off d p \<noteq> Inl (Assertion_failed m)"
  by (simp add: mem_store_def split: option.split)

lemma memmove_not_assert [simp]: "memmove p dst src n \<noteq> Inl (Assertion_failed m)"
  by (simp add: memmove_def split: option.split)

lemma memcpy_not_assert [simp]: "memcpy p dst src n \<noteq> Inl (Assertion_failed m)"
  by (simp add: memcpy_def)

lemma memset_not_assert [simp]: "memset p dst c n \<noteq> Inl (Assertion_failed m)"
  by (simp add: memset_def)

section \<open>Allocators\<close>

text \<open>
  The allocator functions act on an allocator state \<open>'h\<close> (the process heap, an arena,
  a test double's log).  \<^verbatim>\<open>malloc\<close> and \<^verbatim>\<open>realloc\<close> may return \<open>NULL\<close>; \<^verbatim>\<open>realloc\<close>
  is only called on a live block; \<^verbatim>\<open>free(NULL)\<close> is allowed.
\<close>

type_synonym 'h malloc_fn = "nat \<Rightarrow> 'h \<Rightarrow> buffer option \<times> 'h"
type_synonym 'h realloc_fn = "buffer \<Rightarrow> nat \<Rightarrow> 'h \<Rightarrow> buffer option \<times> 'h"
type_synonym 'h free_fn = "buffer option \<Rightarrow> 'h \<Rightarrow> 'h"

record 'h allocator =
  alloc_malloc :: "'h malloc_fn"
  alloc_realloc :: "'h realloc_fn"
  alloc_free :: "'h free_fn"

text \<open>
  The contract of a conforming allocator: a block returned by \<^verbatim>\<open>malloc(n)\<close> has \<open>n\<close>
  bytes (of unspecified value); \<^verbatim>\<open>realloc(b, n)\<close> returns \<open>n\<close> bytes whose first
  \<open>min (length b) n\<close> are those of \<open>b\<close>.
\<close>

definition malloc_ok :: "'h malloc_fn \<Rightarrow> bool" where
  "malloc_ok m \<longleftrightarrow> (\<forall>n h b h'. m n h = (Some b, h') \<longrightarrow> length b = n)"

definition realloc_ok :: "'h realloc_fn \<Rightarrow> bool" where
  "realloc_ok r \<longleftrightarrow>
     (\<forall>b n h b' h'. r b n h = (Some b', h') \<longrightarrow> length b' = n \<and> take (length b) b' = take n b)"

text \<open>An allocator that never returns \<open>NULL\<close> (the source assumes one, see \<open>Void_Array\<close>).\<close>

definition never_null :: "'h malloc_fn \<Rightarrow> 'h realloc_fn \<Rightarrow> bool" where
  "never_null m r \<longleftrightarrow> (\<forall>n h. fst (m n h) \<noteq> None) \<and> (\<forall>b n h. fst (r b n h) \<noteq> None)"

lemma malloc_okD:
  "malloc_ok m \<Longrightarrow> m n h = (Some b, h') \<Longrightarrow> length b = n"
  by (auto simp: malloc_ok_def)

lemma realloc_okD:
  "realloc_ok r \<Longrightarrow> r b n h = (Some b', h') \<Longrightarrow> length b' = n \<and> take (length b) b' = take n b"
  unfolding realloc_ok_def by blast

lemma never_null_mallocE:
  assumes "never_null m r"
  obtains b h' where "m n h = (Some b, h')"
proof -
  from assms have "fst (m n h) \<noteq> None" by (simp add: never_null_def)
  with that show ?thesis by (cases "m n h") auto
qed

lemma never_null_reallocE:
  assumes "never_null m r"
  obtains b' h' where "r c n h = (Some b', h')"
proof -
  from assms have "fst (r c n h) \<noteq> None" by (simp add: never_null_def)
  with that show ?thesis by (cases "r c n h") auto
qed

subsection \<open>A concrete allocator\<close>

text \<open>
  A logging allocator, the kind of test double the per-instance hooks exist for: it
  records every call and returns zero-filled blocks.  Its log makes the allocator
  traffic of an operation observable.
\<close>

datatype alloc_event = Ev_malloc nat | Ev_realloc nat nat | Ev_free

definition log_malloc :: "alloc_event list malloc_fn" where
  "log_malloc n h = (Some (replicate n 0), h @ [Ev_malloc n])"

definition log_realloc :: "alloc_event list realloc_fn" where
  "log_realloc b n h = (Some (take n b @ replicate (n - length b) 0), h @ [Ev_realloc (length b) n])"

definition log_free :: "alloc_event list free_fn" where
  "log_free p h = h @ [Ev_free]"

definition log_alloc :: "alloc_event list allocator" where
  "log_alloc = \<lparr>alloc_malloc = log_malloc, alloc_realloc = log_realloc, alloc_free = log_free\<rparr>"

lemma log_malloc_ok: "malloc_ok log_malloc"
  by (simp add: malloc_ok_def log_malloc_def)

lemma log_realloc_ok: "realloc_ok log_realloc"
  by (auto simp: realloc_ok_def log_realloc_def min_def)

lemma log_never_null: "never_null log_malloc log_realloc"
  by (simp add: never_null_def log_malloc_def log_realloc_def)

end
