(* ===== verification/Void_Array.thy ===== *)
theory Void_Array
  imports Libc
begin

text \<open>
  The untyped core of \<^verbatim>\<open>src/src/array.h\<close>: the struct \<^verbatim>\<open>Array(T)\<close> seen as
  \<^verbatim>\<open>VoidArray\<close> (lines 13--21, 53) and the four private functions that every public
  macro is built on, \<^verbatim>\<open>array__delete\<close>, \<^verbatim>\<open>array__reserve\<close>, \<^verbatim>\<open>array__grow\<close> and
  \<^verbatim>\<open>array__splice\<close> (lines 61--124).  They work on bytes: the element size is a
  parameter, offsets are element indices times it, as the \<^verbatim>\<open>char *\<close> arithmetic of the
  source.  \<^verbatim>\<open>uint32_t\<close> fields and parameters are \<open>u32\<close> words, so their
  arithmetic wraps as in C; \<^verbatim>\<open>size_t\<close> values are \<open>nat\<close> (a 64-bit \<^verbatim>\<open>size_t\<close>
  cannot overflow on sums and products of two \<^verbatim>\<open>uint32_t\<close>).  A state is the struct
  together with the allocator state its function pointers act on.
\<close>

section \<open>The struct\<close>

record 'h void_array =
  contents :: "buffer option"
  size32 :: u32
  capacity :: u32
  malloc :: "'h malloc_fn"
  realloc :: "'h realloc_fn"
  free :: "'h free_fn"

type_synonym 'h state = "'h void_array \<times> 'h"

section \<open>Private functions\<close>

text \<open>The accessors of the three hooks (lines 57--59).\<close>

definition array__malloc :: "'h void_array \<Rightarrow> 'h malloc_fn" where
  "array__malloc self = malloc self"

definition array__realloc :: "'h void_array \<Rightarrow> 'h realloc_fn" where
  "array__realloc self = realloc self"

definition array__free :: "'h void_array \<Rightarrow> 'h free_fn" where
  "array__free self = free self"

definition array__delete :: "'h state \<Rightarrow> 'h state" where
  "array__delete s =
     (let (self, h) = s;
          h' = array__free self (contents self) h
      in (self\<lparr>contents := None, size32 := 0, capacity := 0\<rparr>, h'))"

definition array__reserve :: "nat \<Rightarrow> u32 \<Rightarrow> 'h state \<Rightarrow> 'h state" where
  "array__reserve element_size new_capacity s =
     (let (self, h) = s
      in if capacity self < new_capacity then
           (let (p, h') =
              (case contents self of
                 Some b \<Rightarrow> array__realloc self b (unat new_capacity * element_size) h
               | None \<Rightarrow> array__malloc self (unat new_capacity * element_size) h)
            in (self\<lparr>contents := p, capacity := new_capacity\<rparr>, h'))
         else (self, h))"

text \<open>
  \<^verbatim>\<open>array__grow\<close> computes \<open>new_size = size + margin\<close> in \<^verbatim>\<open>size_t\<close> (no wrap), but
  \<^verbatim>\<open>self->capacity * 2\<close> is a \<^verbatim>\<open>uint32_t\<close> times an \<^verbatim>\<open>int\<close>, computed in
  \<^verbatim>\<open>unsigned int\<close>: the doubling wraps modulo \<open>2^32\<close> before it is widened.  The result
  is passed to the \<^verbatim>\<open>uint32_t\<close> parameter of \<^verbatim>\<open>array__reserve\<close>, a conversion that
  keeps it modulo \<open>2^32\<close> (\<open>word_of_nat\<close>).
\<close>

definition grow_capacity :: "nat \<Rightarrow> nat \<Rightarrow> nat" where
  "grow_capacity cap new_size =
     (let c = cap * 2 mod 2 ^ 32;
          c = (if c < 8 then 8 else c)
      in if c < new_size then new_size else c)"

definition array__grow :: "nat \<Rightarrow> nat \<Rightarrow> 'h state \<Rightarrow> 'h state" where
  "array__grow margin element_size s =
     (let (self, h) = s;
          new_size = unat (size32 self) + margin
      in if unat (capacity self) < new_size then
           array__reserve element_size
             (word_of_nat (grow_capacity (unat (capacity self)) new_size)) (self, h)
         else (self, h))"

text \<open>
  \<^verbatim>\<open>array__splice\<close> replaces the \<open>old_count\<close> elements at \<open>index\<close> by \<open>new_count\<close>
  elements read from \<open>elements\<close> (the bytes of a caller's object), or zeros when
  \<open>elements\<close> is \<open>NULL\<close>.  The assertion is the only check; the three \<^verbatim>\<open>uint32_t\<close>
  sums are computed before it and wrap.
\<close>

definition array__splice ::
  "nat \<Rightarrow> u32 \<Rightarrow> u32 \<Rightarrow> u32 \<Rightarrow> byte list option \<Rightarrow> 'h state \<Rightarrow> 'h state result" where
  "array__splice element_size index old_count new_count elements s =
     (let (self, h) = s;
          new_size = size32 self + new_count - old_count;
          old_end = index + old_count;
          new_end = index + new_count
      in if \<not> old_end \<le> size32 self
         then Inl (Assertion_failed ''old_end <= self->size'')
         else
           (let (self, h) = array__reserve element_size new_size (self, h)
            in res_bind
                 (if old_end < size32 self
                  then memmove (contents self) (unat new_end * element_size)
                         (unat old_end * element_size) (unat (size32 self - old_end) * element_size)
                  else Inr (contents self))
                 (\<lambda>p. res_bind
                   (if 0 < new_count then
                      (case elements of
                         Some src \<Rightarrow> memcpy p (unat index * element_size) src (unat new_count * element_size)
                       | None \<Rightarrow> memset p (unat index * element_size) 0 (unat new_count * element_size))
                    else Inr p)
                   (\<lambda>p. Inr (self\<lparr>contents := p, size32 := size32 self + (new_count - old_count)\<rparr>, h)))))"

text \<open>The bytes written at the splice point, and when the caller's source is long enough.\<close>

definition new_bytes :: "byte list option \<Rightarrow> nat \<Rightarrow> byte list" where
  "new_bytes elements n = (case elements of Some src \<Rightarrow> take n src | None \<Rightarrow> replicate n 0)"

definition src_ok :: "byte list option \<Rightarrow> nat \<Rightarrow> bool" where
  "src_ok elements n = (case elements of Some src \<Rightarrow> n \<le> length src | None \<Rightarrow> True)"

lemma length_new_bytes [simp]: "src_ok elements n \<Longrightarrow> length (new_bytes elements n) = n"
  by (auto simp: new_bytes_def src_ok_def split: option.splits)

lemma array__hooks [simp]:
  "array__malloc self = malloc self" "array__realloc self = realloc self" "array__free self = free self"
  by (simp_all add: array__malloc_def array__realloc_def array__free_def)

section \<open>Invariant\<close>

text \<open>
  The invariant of \<^verbatim>\<open>spec.md\<close> \<section>3 at byte level: \<open>size <= capacity\<close>, \<open>contents\<close> is
  \<open>NULL\<close> exactly when \<open>capacity = 0\<close>, and a live block has room for \<open>capacity\<close>
  elements.  The allocator the instance is bound to must keep its contract and never
  return \<open>NULL\<close>: the source never checks (see \<open>array__reserve_null\<close> in \<open>Array_Limits\<close>).
\<close>

definition va_inv :: "nat \<Rightarrow> 'h void_array \<Rightarrow> bool" where
  "va_inv element_size self \<longleftrightarrow>
     size32 self \<le> capacity self \<and>
     (case contents self of
        None \<Rightarrow> capacity self = 0
      | Some b \<Rightarrow> capacity self \<noteq> 0 \<and> length b = unat (capacity self) * element_size)"

definition alloc_sound :: "'h void_array \<Rightarrow> bool" where
  "alloc_sound self \<longleftrightarrow>
     malloc_ok (malloc self) \<and> realloc_ok (realloc self) \<and> never_null (malloc self) (realloc self)"

definition same_alloc :: "'h void_array \<Rightarrow> 'h void_array \<Rightarrow> bool" where
  "same_alloc a b \<longleftrightarrow> malloc a = malloc b \<and> realloc a = realloc b \<and> free a = free b"

text \<open>The bytes of a block; \<open>NULL\<close> has none.\<close>

definition bytes_of :: "buffer option \<Rightarrow> buffer" where
  "bytes_of p = (case p of None \<Rightarrow> [] | Some b \<Rightarrow> b)"

lemma bytes_of_simps [simp]: "bytes_of None = []" "bytes_of (Some b) = b"
  by (simp_all add: bytes_of_def)

lemma va_invD:
  assumes "va_inv e self"
  shows "size32 self \<le> capacity self"
    and "length (bytes_of (contents self)) = unat (capacity self) * e"
    and "contents self = None \<longleftrightarrow> capacity self = 0"
  using assms by (auto simp: va_inv_def split: option.splits)

lemma same_alloc_refl [simp]: "same_alloc a a"
  by (simp add: same_alloc_def)

lemma same_alloc_sound: "same_alloc a b \<Longrightarrow> alloc_sound a \<longleftrightarrow> alloc_sound b"
  by (simp add: same_alloc_def alloc_sound_def)

section \<open>\<^verbatim>\<open>array__reserve\<close>\<close>

lemma array__reserve_fields:
  "size32 (fst (array__reserve e n s)) = size32 (fst s)"
  "capacity (fst (array__reserve e n s)) = max (capacity (fst s)) n"
  "same_alloc (fst (array__reserve e n s)) (fst s)"
  by (cases s; auto simp: array__reserve_def same_alloc_def max_def split: prod.splits option.splits)+

lemma array__reserve_noop:
  "n \<le> capacity self \<Longrightarrow> array__reserve e n (self, h) = (self, h)"
  by (simp add: array__reserve_def leD)

text \<open>
  Growing keeps the invariant and the bytes of the old block: the first
  \<open>capacity * element_size\<close> bytes of the new block are those of the old one.
\<close>

lemma array__reserve_inv:
  fixes n :: u32 and h :: 'h
  assumes inv: "va_inv e self" and al: "alloc_sound self"
  defines "self' \<equiv> fst (array__reserve e n (self, h))"
  shows "va_inv e self'"
    and "take (unat (capacity self) * e) (bytes_of (contents self')) = bytes_of (contents self)"
proof -
  have m: "malloc_ok (malloc self)" and r: "realloc_ok (realloc self)"
    and nn: "never_null (malloc self) (realloc self)"
    using al by (simp_all add: alloc_sound_def)
  have "va_inv e self' \<and>
        take (unat (capacity self) * e) (bytes_of (contents self')) = bytes_of (contents self)"
  proof (cases "capacity self < n")
    case False
    with inv show ?thesis by (simp add: self'_def array__reserve_def va_inv_def split: option.splits)
  next
    case grow: True
    then have lt: "unat (capacity self) < unat n"
      by (simp add: word_less_nat_alt)
    then have n: "n \<noteq> 0" "unat (capacity self) \<le> unat n"
      by auto
    show ?thesis
    proof (cases "contents self")
      case None
      obtain b h' where mb: "malloc self (unat n * e) h = (Some b, h')"
        using nn by (rule never_null_mallocE)
      with m have "length b = unat n * e" by (rule malloc_okD)
      with inv grow None mb n show ?thesis
        by (auto simp: self'_def array__reserve_def va_inv_def word_le_nat_alt)
    next
      case (Some b)
      obtain b' h' where rb: "realloc self b (unat n * e) h = (Some b', h')"
        using nn by (rule never_null_reallocE)
      with r have b': "length b' = unat n * e" "take (length b) b' = take (unat n * e) b"
        by (blast dest: realloc_okD)+
      from inv Some have lb: "length b = unat (capacity self) * e"
        by (simp add: va_inv_def)
      with n have "take (unat n * e) b = b" by simp
      with inv grow Some rb n b' lb show ?thesis
        by (auto simp: self'_def array__reserve_def va_inv_def word_le_nat_alt)
    qed
  qed
  then show "va_inv e self'"
    and "take (unat (capacity self) * e) (bytes_of (contents self')) = bytes_of (contents self)"
    by simp_all
qed

section \<open>\<^verbatim>\<open>array__grow\<close>\<close>

text \<open>Below \<open>2^31\<close> the doubling does not wrap; from there on it does, and a full array
  grows by one element only.\<close>

lemma grow_capacity_eq: "cap < 2 ^ 31 \<Longrightarrow> grow_capacity cap ns = max (max 8 (2 * cap)) ns"
  by (simp add: grow_capacity_def Let_def max_def)

lemma grow_capacity_ge: "ns \<le> grow_capacity cap ns"
  by (simp add: grow_capacity_def Let_def)

lemma grow_capacity_fits: "ns < 2 ^ 32 \<Longrightarrow> grow_capacity cap ns < 2 ^ 32"
  by (simp add: grow_capacity_def Let_def)

lemma grow_capacity_wrap:
  assumes "2 ^ 31 \<le> cap" and "cap < 2 ^ 32"
  shows "grow_capacity cap (cap + 1) = cap + 1"
proof -
  have "cap * 2 mod 2 ^ 32 = cap * 2 - 2 ^ 32" using assms by (simp add: le_mod_geq)
  then have "cap * 2 mod 2 ^ 32 < cap + 1" using assms by simp
  then show ?thesis using assms by (simp add: grow_capacity_def Let_def)
qed

lemma array__grow_noop:
  "unat (size32 self) + margin \<le> unat (capacity self) \<Longrightarrow> array__grow margin e (self, h) = (self, h)"
  by (simp add: array__grow_def)

lemma array__grow_room:
  fixes h :: 'h
  assumes inv: "va_inv e self" and al: "alloc_sound self"
    and fits: "unat (capacity self) < unat (size32 self) + margin \<Longrightarrow>
               grow_capacity (unat (capacity self)) (unat (size32 self) + margin) < 2 ^ 32"
  defines "self' \<equiv> fst (array__grow margin e (self, h))"
  shows "va_inv e self'" "same_alloc self' self" "size32 self' = size32 self"
    and "unat (size32 self) + margin \<le> unat (capacity self')"
    and "take (unat (capacity self) * e) (bytes_of (contents self')) = bytes_of (contents self)"
    and "unat (size32 self) + margin \<le> unat (capacity self) \<Longrightarrow> self' = self"
    and "unat (capacity self) < unat (size32 self) + margin \<Longrightarrow>
         unat (capacity self') = grow_capacity (unat (capacity self)) (unat (size32 self) + margin)"
proof -
  let ?n = "unat (size32 self) + margin"
  let ?g = "grow_capacity (unat (capacity self)) ?n"
  have len_b: "length (bytes_of (contents self)) = unat (capacity self) * e"
    using inv by (rule va_invD)
  show "unat (size32 self) + margin \<le> unat (capacity self) \<Longrightarrow> self' = self"
    by (simp add: self'_def array__grow_noop)
  have "va_inv e self' \<and> same_alloc self' self \<and> size32 self' = size32 self \<and>
        ?n \<le> unat (capacity self') \<and>
        take (unat (capacity self) * e) (bytes_of (contents self')) = bytes_of (contents self) \<and>
        (unat (capacity self) < ?n \<longrightarrow> unat (capacity self') = ?g)"
  proof (cases "unat (capacity self) < ?n")
    case False
    with inv len_b show ?thesis by (simp add: self'_def array__grow_noop)
  next
    case True
    have g: "unat (word_of_nat ?g :: u32) = ?g" using fits [OF True] by (simp add: unat_of_nat)
    have "?n \<le> ?g" "unat (capacity self) < ?g"
      using True grow_capacity_ge [of ?n "unat (capacity self)"] by auto
    then have cap: "capacity self \<le> word_of_nat ?g"
      using g by (simp add: word_le_nat_alt)
    have self': "self' = fst (array__reserve e (word_of_nat ?g) (self, h))"
      using True by (simp add: self'_def array__grow_def)
    show ?thesis
      using array__reserve_inv [OF inv al, of "word_of_nat ?g" h] array__reserve_fields [of e _ "(self, h)"]
        cap g \<open>?n \<le> ?g\<close>
      by (simp add: self' max_def)
  qed
  then show "va_inv e self'" "same_alloc self' self" "size32 self' = size32 self"
    and "?n \<le> unat (capacity self')"
    and "take (unat (capacity self) * e) (bytes_of (contents self')) = bytes_of (contents self)"
    and "unat (capacity self) < ?n \<Longrightarrow> unat (capacity self') = ?g"
    by simp_all
qed

text \<open>On a full array of capacity at least \<open>2^31\<close> the wrapped doubling is below the
  size needed, so \<^verbatim>\<open>array__grow\<close> asks for \<open>capacity + 1\<close>, computed modulo \<open>2^32\<close>.\<close>

lemma array__grow_wrap:
  assumes "size32 self = capacity self" and "2 ^ 31 \<le> unat (capacity self)"
  shows "array__grow 1 e (self, h) = array__reserve e (capacity self + 1) (self, h)"
proof -
  let ?c = "unat (capacity self)"
  have g: "grow_capacity ?c (?c + 1) = ?c + 1"
    using grow_capacity_wrap [OF assms(2)] by simp
  have "word_of_nat (?c + 1) = capacity self + 1" by simp
  then show ?thesis
    using assms(1) g by (simp add: array__grow_def add.commute)
qed

section \<open>\<^verbatim>\<open>array__splice\<close>\<close>

lemma splice_words:
  fixes size index old_count new_count :: u32
  assumes rng: "unat index + unat old_count \<le> unat size"
    and room: "unat size + unat new_count < 2 ^ 32"
  shows "unat (index + old_count) = unat index + unat old_count"
    and "unat (index + new_count) = unat index + unat new_count"
    and "unat (size + new_count - old_count) = unat size + unat new_count - unat old_count"
    and "unat (size - (index + old_count)) = unat size - (unat index + unat old_count)"
    and "size + (new_count - old_count) = size + new_count - old_count"
    and "index + old_count \<le> size"
    and "index + old_count < size \<longleftrightarrow> unat index + unat old_count < unat size"
proof -
  show oe: "unat (index + old_count) = unat index + unat old_count"
    using le_unat_u32 [OF rng] by (rule unat_add_u32)
  have "unat index + unat new_count < 2 ^ 32" using rng room by linarith
  then show "unat (index + new_count) = unat index + unat new_count"
    by (rule unat_add_u32)
  have "unat (size + new_count) = unat size + unat new_count"
    using room by (rule unat_add_u32)
  then show "unat (size + new_count - old_count) = unat size + unat new_count - unat old_count"
    using rng by (simp add: unat_sub_u32)
  show "unat (size - (index + old_count)) = unat size - (unat index + unat old_count)"
    using rng oe by (simp add: unat_sub_u32)
  show "size + (new_count - old_count) = size + new_count - old_count"
    by simp
  show "index + old_count \<le> size" using rng oe by (simp add: word_le_nat_alt)
  show "index + old_count < size \<longleftrightarrow> unat index + unat old_count < unat size"
    using oe by (simp add: word_less_nat_alt)
qed

lemma guarded_memmove:
  assumes "P \<Longrightarrow> src + n \<le> length b \<and> dst + n \<le> length b" and "\<not> P \<Longrightarrow> n = 0"
  shows "(if P then memmove (Some b) dst src n else Inr (Some b)) =
         Inr (Some (overwrite dst (take n (drop src b)) b))"
  using assms by (cases P) (simp_all add: memmove_Some)

lemma guarded_fill:
  fixes k :: u32
  assumes "off + unat k * e \<le> length b" and "src_ok elements (unat k * e)"
  shows "(if 0 < k then
            (case elements of
               Some src \<Rightarrow> memcpy (Some b) off src (unat k * e)
             | None \<Rightarrow> memset (Some b) off 0 (unat k * e))
          else Inr (Some b)) =
         Inr (Some (overwrite off (new_bytes elements (unat k * e)) b))"
  using assms
  by (cases "k = 0")
     (auto simp: memcpy_Some memset_Some new_bytes_def src_ok_def word_neq_0_conv split: option.splits)

lemma splice_layout:
  fixes I D K S C e :: nat
  assumes rng: "I + D \<le> S" and SC: "S \<le> C"
    and lenB: "length B = C * e" and pre: "take (C * e) b1 = B"
    and le1: "(S + K - D) * e \<le> length b1" and lN: "length N = K * e"
  defines "T \<equiv> take ((S - (I + D)) * e) (drop ((I + D) * e) b1)"
  shows "length (overwrite ((I + K) * e) T b1) = length b1"
    and "length (overwrite (I * e) N (overwrite ((I + K) * e) T b1)) = length b1"
    and "take ((S + K - D) * e) (overwrite (I * e) N (overwrite ((I + K) * e) T b1)) =
         take (I * e) B @ N @ take ((S - (I + D)) * e) (drop ((I + D) * e) B)"
proof -
  let ?T = "take ((S - (I + D)) * e) (drop ((I + D) * e) B)"
  have SCe: "S * e \<le> C * e" using SC by (rule mult_le_mono1)
  have ar1: "(I + K) * e + (S - (I + D)) * e = (S + K - D) * e"
  proof -
    have "(I + K) + (S - (I + D)) = S + K - D" using rng by arith
    then show ?thesis by (metis add_mult_distrib)
  qed
  have ar3: "I * e + K * e = (I + K) * e" by (simp add: add_mult_distrib)
  have T: "T = ?T"
    using take_drop_prefix [of "C * e" b1 B] pre lenB SC rng
    by (simp add: T_def add_mult_distrib [symmetric])
  have lT: "length ?T = (S - (I + D)) * e"
  proof -
    have "(S - (I + D)) * e \<le> length B - (I + D) * e"
      using SCe lenB by (simp add: diff_mult_distrib diff_le_mono)
    then show ?thesis by (simp add: min_absorb1)
  qed
  show len2: "length (overwrite ((I + K) * e) T b1) = length b1"
    by (rule length_overwrite) (use T lT ar1 le1 in simp)
  show "length (overwrite (I * e) N (overwrite ((I + K) * e) T b1)) = length b1"
    using len2 lN le1 ar1 ar3 by simp
  have adj: "overwrite (I * e) N (overwrite ((I + K) * e) T b1) =
             take (I * e) b1 @ N @ ?T @ drop ((I + K) * e + length ?T) b1"
    using overwrite_adjacent [of "I * e" N "(I + K) * e" ?T b1] T lT le1 lN ar1 ar3 by simp
  have pfx: "take (I * e) b1 = take (I * e) B"
  proof -
    have "I * e \<le> C * e" using rng SC by simp
    then show ?thesis using pre by (metis min_absorb1 take_take)
  qed
  have lI: "length (take (I * e) B) = I * e"
    using lenB rng SC by simp
  show "take ((S + K - D) * e) (overwrite (I * e) N (overwrite ((I + K) * e) T b1)) =
        take (I * e) B @ N @ ?T"
    unfolding adj pfx
    by (rule take_append3) (use lI lN lT ar1 ar3 in simp)
qed

lemma array__splice_bytes:
  fixes h :: 'h and index old_count new_count :: u32
  assumes inv: "va_inv e self" and al: "alloc_sound self"
    and rng: "unat index + unat old_count \<le> unat (size32 self)"
    and room: "unat (size32 self) + unat new_count < 2 ^ 32"
    and src: "src_ok elements (unat new_count * e)"
  defines "B \<equiv> bytes_of (contents self)"
    and "I \<equiv> unat index" and "D \<equiv> unat old_count" and "K \<equiv> unat new_count"
    and "S \<equiv> unat (size32 self)"
  shows "\<exists>self' h'. array__splice e index old_count new_count elements (self, h) = Inr (self', h') \<and>
           va_inv e self' \<and> same_alloc self' self \<and>
           unat (size32 self') = S + K - D \<and>
           unat (capacity self') = max (unat (capacity self)) (S + K - D) \<and>
           take ((S + K - D) * e) (bytes_of (contents self')) =
             take (I * e) B @ new_bytes elements (K * e) @ take ((S - (I + D)) * e) (drop ((I + D) * e) B)"
proof -
  note w = splice_words [OF rng room]
  let ?ns = "size32 self + new_count - old_count"
  obtain self1 h1 where s1: "array__reserve e ?ns (self, h) = (self1, h1)"
    by (cases "array__reserve e ?ns (self, h)")
  have inv1: "va_inv e self1"
    and pre1: "take (unat (capacity self) * e) (bytes_of (contents self1)) = B"
    using array__reserve_inv [OF inv al, of ?ns h] by (simp_all add: s1 B_def)
  have f1: "size32 self1 = size32 self" "capacity self1 = max (capacity self) ?ns"
    "same_alloc self1 self"
    using array__reserve_fields [of e ?ns "(self, h)"] by (simp_all add: s1)
  have cap1: "unat (capacity self1) = max (unat (capacity self)) (S + K - D)"
    using f1 w by (simp add: unat_max_u32 S_def K_def D_def)
  have SC: "S \<le> unat (capacity self)"
    using va_invD(1) [OF inv] by (simp add: S_def word_le_nat_alt)
  then have SCe: "S * e \<le> unat (capacity self) * e" by (rule mult_le_mono1)
  let ?T = "take ((S - (I + D)) * e) (drop ((I + D) * e) B)"
  let ?N = "new_bytes elements (K * e)"
  let ?self' = "\<lambda>p. self1\<lparr>contents := p, size32 := size32 self1 + (new_count - old_count)\<rparr>"
  show ?thesis
  proof (cases "contents self1")
    case None
    then have "capacity self1 = 0" using va_invD(3) [OF inv1] by simp
    then have z: "S + K - D = 0" "unat (capacity self) = 0" using cap1 by simp_all
    then have z2: "S = 0" "K = 0" "I = 0" "D = 0" using SC rng by (simp_all add: S_def I_def D_def)
    then have "new_count = 0" "size32 self = 0" "index = 0" "old_count = 0"
      by (simp_all add: K_def S_def I_def D_def unat_eq_zero)
    then show ?thesis
      using inv1 f1 None s1 z z2
      by (simp add: array__splice_def va_inv_def same_alloc_def new_bytes_def split: option.split)
  next
    case (Some b1)
    have lb1: "length b1 = unat (capacity self1) * e"
      using va_invD(2) [OF inv1] Some by simp
    have pre: "take (unat (capacity self) * e) b1 = B" using pre1 Some by simp
    have lenB: "length B = unat (capacity self) * e" using va_invD(2) [OF inv] by (simp add: B_def)
    have le1: "(S + K - D) * e \<le> length b1" using lb1 cap1 by simp
    have rng': "I + D \<le> S" using rng by (simp add: I_def D_def S_def)
    have lN: "length ?N = K * e" using src by (simp add: K_def)
    let ?b2 = "overwrite ((I + K) * e) (take ((S - (I + D)) * e) (drop ((I + D) * e) b1)) b1"
    note lay = splice_layout [OF rng' SC lenB pre le1 lN]
    have mv: "(if index + old_count < size32 self1
               then memmove (contents self1) (unat (index + new_count) * e)
                      (unat (index + old_count) * e) (unat (size32 self1 - (index + old_count)) * e)
               else Inr (contents self1)) = Inr (Some ?b2)"
      unfolding Some f1 w I_def [symmetric] K_def [symmetric] D_def [symmetric] S_def [symmetric]
    proof (rule guarded_memmove)
      show "(I + D) * e + (S - (I + D)) * e \<le> length b1 \<and> (I + K) * e + (S - (I + D)) * e \<le> length b1"
        if "I + D < S"
      proof -
        have "(I + D) + (S - (I + D)) = S" "(I + K) + (S - (I + D)) = S + K - D"
          using rng' by simp_all
        then have "(I + D) * e + (S - (I + D)) * e = S * e"
          "(I + K) * e + (S - (I + D)) * e = (S + K - D) * e"
          by (metis add_mult_distrib)+
        moreover have "S * e \<le> length b1"
          using SC lb1 cap1 by (simp add: le_max_iff_disj)
        ultimately show ?thesis using le1 by simp
      qed
      show "(S - (I + D)) * e = 0" if "\<not> I + D < S" using that rng' by simp
    qed
    have pre2: "unat index * e + unat new_count * e \<le> length ?b2"
    proof -
      have "length ?b2 = length b1" by (rule lay(1))
      moreover have "I * e + K * e \<le> (S + K - D) * e"
      proof -
        have "I + K \<le> S + K - D" using rng' by arith
        then show ?thesis by (metis add_mult_distrib mult_le_mono1)
      qed
      ultimately show ?thesis using le1 by (simp add: I_def K_def)
    qed
    have fill: "(if 0 < new_count then
                   (case elements of
                      Some src \<Rightarrow> memcpy (Some ?b2) (unat index * e) src (unat new_count * e)
                    | None \<Rightarrow> memset (Some ?b2) (unat index * e) 0 (unat new_count * e))
                 else Inr (Some ?b2)) =
                Inr (Some (overwrite (unat index * e) (new_bytes elements (unat new_count * e)) ?b2))"
      using pre2 src unfolding K_def by (rule guarded_fill)
    have eqI: "overwrite (unat index * e) (new_bytes elements (unat new_count * e)) ?b2 =
               overwrite (I * e) ?N ?b2"
      by (simp only: I_def K_def)
    have props: "take ((S + K - D) * e) (overwrite (I * e) ?N ?b2) = take (I * e) B @ ?N @ ?T"
      "va_inv e (?self' (Some (overwrite (I * e) ?N ?b2)))"
    proof -
      show "take ((S + K - D) * e) (overwrite (I * e) ?N ?b2) = take (I * e) B @ ?N @ ?T"
        by (rule lay(3))
      have "size32 self + (new_count - old_count) \<le> capacity self1"
        using f1(2) by (metis max.cobounded2 add_diff_eq)
      then show "va_inv e (?self' (Some (overwrite (I * e) ?N ?b2)))"
        using inv1 Some lay(2) lb1 f1(1) by (simp add: va_inv_def)
    qed
    have run: "array__splice e index old_count new_count elements (self, h) =
               Inr (?self' (Some (overwrite (I * e) ?N ?b2)), h1)"
      using s1 mv fill eqI w(6) Some by (simp add: array__splice_def Let_def)
    have sz: "unat (size32 (?self' p)) = S + K - D" for p
      using f1 w by (simp add: add_diff_eq S_def K_def D_def)
    have sa: "same_alloc (?self' p) self" for p
      using f1 by (simp add: same_alloc_def)
    show ?thesis
      using run props sz sa cap1 by simp
  qed
qed

text \<open>
  The range check of \<^verbatim>\<open>array__splice\<close> is its only assertion: the call fails an
  assertion exactly when the wrapped \<open>uint32_t\<close> sum \<open>index + old_count\<close> exceeds the size.
\<close>

lemma array__splice_assert_iff:
  "array__splice e index old_count new_count elements (self, h) = Inl (Assertion_failed m) \<longleftrightarrow>
   \<not> index + old_count \<le> size32 self \<and> m = ''old_end <= self->size''"
  by (auto simp: array__splice_def Let_def res_bind_def split: prod.splits sum.splits option.splits)

lemma array__splice_assert:
  assumes "unat (size32 self) < unat index + unat old_count"
    and "unat index + unat old_count < 2 ^ 32"
  shows "array__splice e index old_count new_count elements (self, h) =
         Inl (Assertion_failed ''old_end <= self->size'')"
proof -
  have "unat (index + old_count) = unat index + unat old_count"
    using assms(2) by (rule unat_add_u32)
  then have "\<not> index + old_count \<le> size32 self"
    using assms(1) by (simp add: word_le_nat_alt)
  then show ?thesis by (simp add: array__splice_assert_iff)
qed

lemma array__splice_wrap_passes_assert:
  assumes "2 ^ 32 \<le> unat index + unat old_count"
    and "unat index + unat old_count - 2 ^ 32 \<le> unat (size32 self)"
  shows "array__splice e index old_count new_count elements (self, h) \<noteq>
         Inl (Assertion_failed m)"
proof -
  have "unat (index + old_count) = unat index + unat old_count - 2 ^ 32"
    using assms(1) by (simp add: unat_plus_if')
  then have "index + old_count \<le> size32 self"
    using assms(2) by (simp add: word_le_nat_alt)
  then show ?thesis by (simp add: array__splice_assert_iff)
qed

subsection \<open>Well-formedness of every normal return\<close>

text \<open>A byte copy keeps the block: same \<open>NULL\<close>-ness, same length.\<close>

lemma va_inv_mem_store:
  "va_inv e self \<Longrightarrow> mem_store off d (contents self) = Inr p \<Longrightarrow> va_inv e (self\<lparr>contents := p\<rparr>)"
  by (auto simp: va_inv_def mem_store_Inr_iff split: option.splits)

lemma va_inv_byte_copies:
  assumes "va_inv e self"
  shows "memmove (contents self) dst src n = Inr p \<Longrightarrow> va_inv e (self\<lparr>contents := p\<rparr>)"
    and "memcpy (contents self) dst b n = Inr p \<Longrightarrow> va_inv e (self\<lparr>contents := p\<rparr>)"
    and "memset (contents self) dst x n = Inr p \<Longrightarrow> va_inv e (self\<lparr>contents := p\<rparr>)"
  using assms va_inv_mem_store [OF assms]
  by (auto simp: memmove_def memcpy_def memset_def split: if_splits option.splits)

lemma va_inv_size: "va_inv e self \<Longrightarrow> n \<le> capacity self \<Longrightarrow> va_inv e (self\<lparr>size32 := n\<rparr>)"
  by (simp add: va_inv_def split: option.splits)

lemma array__grow_inv:
  "va_inv e self \<Longrightarrow> alloc_sound self \<Longrightarrow> va_inv e (fst (array__grow margin e (self, h)))"
  using array__reserve_inv(1) [of e self] by (simp add: array__grow_def Let_def)

lemma array__delete_inv: "va_inv e (fst (array__delete s))"
  by (cases s) (simp add: array__delete_def va_inv_def)

lemma array__splice_Inr_inv:
  fixes h :: 'h
  assumes inv: "va_inv e self" and al: "alloc_sound self"
    and r: "array__splice e index old_count new_count elements (self, h) = Inr (self', h')"
  shows "va_inv e self' \<and> same_alloc self' self"
proof -
  let ?n = "size32 self + new_count - old_count"
  obtain self1 h1 where rs: "array__reserve e ?n (self, h) = (self1, h1)"
    by (cases "array__reserve e ?n (self, h)")
  have va1: "va_inv e self1" using array__reserve_inv(1) [OF inv al, of ?n h] rs by simp
  have f1: "size32 self1 = size32 self" "capacity self1 = max (capacity self) ?n" "same_alloc self1 self"
    using array__reserve_fields [of e ?n "(self, h)"] rs by simp_all
  obtain p1 where p1: "(if index + old_count < size32 self1
            then memmove (contents self1) (unat (index + new_count) * e) (unat (index + old_count) * e)
                   (unat (size32 self1 - (index + old_count)) * e)
            else Inr (contents self1)) = Inr p1"
    using r rs f1(1) by (auto simp: array__splice_def Let_def res_bind_eq_Inr split: if_splits)
  have va2: "va_inv e (self1\<lparr>contents := p1\<rparr>)"
    using p1 va_inv_byte_copies(1) [OF va1] va1 by (auto split: if_splits)
  obtain p2 where p2: "(if 0 < new_count then
            (case elements of
               Some src \<Rightarrow> memcpy p1 (unat index * e) src (unat new_count * e)
             | None \<Rightarrow> memset p1 (unat index * e) 0 (unat new_count * e))
          else Inr p1) = Inr p2"
    and s': "self' = self1\<lparr>contents := p2, size32 := size32 self1 + (new_count - old_count)\<rparr>"
    using r rs f1(1) p1 by (auto simp: array__splice_def Let_def res_bind_eq_Inr split: if_splits)
  have va3: "va_inv e (self1\<lparr>contents := p2\<rparr>)"
    using p2 va_inv_byte_copies(2,3) [of e "self1\<lparr>contents := p1\<rparr>"] va2 va2
    by (auto split: if_splits option.splits)
  have "size32 self1 + (new_count - old_count) \<le> capacity self1"
    using f1(1,2) by (simp add: add_diff_eq)
  then have "va_inv e self'"
    using va_inv_size [OF va3, of "size32 self1 + (new_count - old_count)"] s' by simp
  moreover have "same_alloc self' self" using f1(3) s' by (simp add: same_alloc_def)
  ultimately show ?thesis ..
qed

end
