(* ===== verification/Codec.thy ===== *)
theory Codec
  imports Prelude
begin

text \<open>
  The element type \<^verbatim>\<open>T\<close> of \<^verbatim>\<open>Array(T)\<close> as the macros see it: its size
  \<^verbatim>\<open>sizeof(*(self)->contents)\<close> (\<^verbatim>\<open>array__elem_size\<close>, \<^verbatim>\<open>src/src/array.h\<close>
  line 55), the bytes an assignment of a \<^verbatim>\<open>T\<close> stores, and the value a read of those
  bytes yields.  A conforming codec has a positive size, reads back what it stored, and
  gives the all-zero byte pattern that \<^verbatim>\<open>memset(.., 0, ..)\<close> writes the meaning of a
  value of \<^verbatim>\<open>T\<close> (its zero value: \<open>0\<close>, \<open>0.0\<close>, \<open>NULL\<close>).  A run of elements is
  stored as the concatenation of their encodings, and the elements of a block are read
  back chunk by chunk.
\<close>

record 'a codec =
  elem_size :: nat
  encode :: "'a \<Rightarrow> byte list"
  decode :: "byte list \<Rightarrow> 'a"

definition codec_ok :: "'a codec \<Rightarrow> bool" where
  "codec_ok c \<longleftrightarrow>
     0 < elem_size c \<and>
     (\<forall>x. length (encode c x) = elem_size c \<and> decode c (encode c x) = x) \<and>
     encode c (decode c (replicate (elem_size c) 0)) = replicate (elem_size c) 0"

definition elem_zero :: "'a codec \<Rightarrow> 'a" where
  "elem_zero c = decode c (replicate (elem_size c) 0)"

definition encode_all :: "'a codec \<Rightarrow> 'a list \<Rightarrow> byte list" where
  "encode_all c xs = concat (map (encode c) xs)"

definition decode_elems :: "'a codec \<Rightarrow> nat \<Rightarrow> byte list \<Rightarrow> 'a list" where
  "decode_elems c n buf = map (\<lambda>i. decode c (take (elem_size c) (drop (i * elem_size c) buf))) [0..<n]"

subsection \<open>Conforming codecs\<close>

lemma codec_okD:
  assumes "codec_ok c"
  shows "0 < elem_size c" "length (encode c x) = elem_size c" "decode c (encode c x) = x"
    and "encode c (elem_zero c) = replicate (elem_size c) 0"
  using assms by (simp_all add: codec_ok_def elem_zero_def)

lemma encode_all_simps [simp]:
  "encode_all c [] = []"
  "encode_all c (x # xs) = encode c x @ encode_all c xs"
  "encode_all c (xs @ ys) = encode_all c xs @ encode_all c ys"
  by (simp_all add: encode_all_def)

lemma length_encode_all:
  "codec_ok c \<Longrightarrow> length (encode_all c xs) = length xs * elem_size c"
  by (induction xs) (simp_all add: codec_okD)

lemma take_encode_all:
  "codec_ok c \<Longrightarrow> take (k * elem_size c) (encode_all c xs) = encode_all c (take k xs)"
proof (induction xs arbitrary: k)
  case Nil
  then show ?case by simp
next
  case (Cons x xs)
  then show ?case
    by (cases k) (simp_all add: codec_okD)
qed

lemma drop_encode_all:
  "codec_ok c \<Longrightarrow> drop (k * elem_size c) (encode_all c xs) = encode_all c (drop k xs)"
proof (induction xs arbitrary: k)
  case Nil
  then show ?case by simp
next
  case (Cons x xs)
  then show ?case
    by (cases k) (simp_all add: codec_okD)
qed

lemma encode_all_zeros:
  "codec_ok c \<Longrightarrow> encode_all c (replicate k (elem_zero c)) = replicate (k * elem_size c) 0"
  by (induction k) (simp_all add: codec_okD replicate_add [symmetric])

lemma decode_chunk:
  assumes "codec_ok c" and "i < length xs"
  shows "decode c (take (elem_size c) (drop (i * elem_size c) (encode_all c xs @ r))) = xs ! i"
proof -
  have len: "length (encode_all c xs) = length xs * elem_size c"
    using assms(1) by (rule length_encode_all)
  have "i * elem_size c + elem_size c \<le> length xs * elem_size c"
    using assms(2) by (metis Suc_leI mult_Suc mult_le_mono1 add.commute)
  then have "take (elem_size c) (drop (i * elem_size c) (encode_all c xs @ r)) =
             take (elem_size c) (drop (i * elem_size c) (encode_all c xs))"
    using len by simp
  also have "\<dots> = encode c (xs ! i)"
  proof -
    have "drop i xs = xs ! i # drop (Suc i) xs"
      using assms(2) by (simp add: Cons_nth_drop_Suc)
    then have "drop (i * elem_size c) (encode_all c xs) = encode c (xs ! i) @ encode_all c (drop (Suc i) xs)"
      using drop_encode_all [OF assms(1), of i xs] by simp
    then show ?thesis using codec_okD(2) [OF assms(1)] by simp
  qed
  finally show ?thesis using assms(1) by (simp add: codec_okD)
qed

text \<open>Reading back a stored run gives the run, whatever follows it in the block.\<close>

lemma decode_encode_all:
  assumes "codec_ok c" and "n = length xs"
  shows "decode_elems c n (encode_all c xs @ r) = xs"
proof (rule nth_equalityI)
  show "length (decode_elems c n (encode_all c xs @ r)) = length xs"
    using assms(2) by (simp add: decode_elems_def)
  fix i assume "i < length (decode_elems c n (encode_all c xs @ r))"
  then have "i < length xs" using assms(2) by (simp add: decode_elems_def)
  then show "decode_elems c n (encode_all c xs @ r) ! i = xs ! i"
    using assms decode_chunk [OF assms(1) \<open>i < length xs\<close>, of r]
    by (simp add: decode_elems_def del: take_append drop_append)
qed

lemma decode_elems_prefix:
  "take (n * elem_size c) b = take (n * elem_size c) b' \<Longrightarrow> decode_elems c n b = decode_elems c n b'"
proof -
  assume eq: "take (n * elem_size c) b = take (n * elem_size c) b'"
  have "take (elem_size c) (drop (i * elem_size c) b) = take (elem_size c) (drop (i * elem_size c) b')"
    if "i < n" for i
  proof (rule take_drop_prefix [OF eq])
    show "i * elem_size c + elem_size c \<le> n * elem_size c"
      using that by (metis Suc_leI mult_Suc mult_le_mono1 add.commute)
  qed
  then show ?thesis by (simp add: decode_elems_def)
qed

text \<open>A block whose first \<open>n\<close> chunks store \<open>zs\<close> reads back as \<open>zs\<close>.\<close>

lemma decode_elems_eq:
  assumes "codec_ok c" and "take (n * elem_size c) b = encode_all c zs" and "length zs = n"
  shows "decode_elems c n b = zs"
proof -
  have "take (n * elem_size c) (encode_all c zs @ []) = encode_all c zs"
    using assms(1,3) by (simp add: length_encode_all)
  then have "decode_elems c n b = decode_elems c n (encode_all c zs @ [])"
    using assms(2) by (intro decode_elems_prefix) simp
  also have "\<dots> = zs" using assms(1,3) by (intro decode_encode_all) simp_all
  finally show ?thesis .
qed

subsection \<open>A concrete codec\<close>

text \<open>\<^verbatim>\<open>Array(uint8_t)\<close>: one byte per element.\<close>

definition u8_codec :: "byte codec" where
  "u8_codec = \<lparr>elem_size = 1, encode = (\<lambda>x. [x]), decode = (\<lambda>bs. case bs of [] \<Rightarrow> 0 | b # _ \<Rightarrow> b)\<rparr>"

lemma u8_codec_ok: "codec_ok u8_codec"
  by (simp add: codec_ok_def u8_codec_def)

lemma u8_codec_simps [simp]: "elem_size u8_codec = 1" "elem_zero u8_codec = 0"
  by (simp_all add: u8_codec_def elem_zero_def)

end
