(* ===== verification/Array_Ops.thy ===== *)
theory Array_Ops
  imports Void_Array Codec
begin

text \<open>
  The public macros of \<^verbatim>\<open>src/src/array.h\<close> (lines 23--49) on an \<^verbatim>\<open>Array(T)\<close>, with
  \<^verbatim>\<open>T\<close> given by a codec: each is the composition of the private functions of
  \<open>Void_Array\<close> the macro expands to.  \<open>array_get\<close> returns the value the pointer
  \<^verbatim>\<open>&(self)->contents[index]\<close> designates; its index is the caller's integer, which
  the assertion casts to \<^verbatim>\<open>uint32_t\<close> and the access does not.  The abstraction
  \<open>array_elems\<close> reads the first \<open>size\<close> elements of the block; \<open>array_inv\<close> adds to
  \<open>va_inv\<close> that those bytes are the encodings of the elements.  The lemmas show that
  each macro implements its list operation on \<open>array_elems\<close> and keeps the invariant.
\<close>

section \<open>Construction\<close>

definition array_init :: "'h allocator \<Rightarrow> 'h void_array \<Rightarrow> 'h void_array" where
  "array_init libc self =
     self\<lparr>size32 := 0, capacity := 0, malloc := alloc_malloc libc, realloc := alloc_realloc libc,
          free := alloc_free libc, contents := None\<rparr>"

definition array_new :: "'h allocator \<Rightarrow> 'h void_array" where
  "array_new libc =
     \<lparr>contents = None, size32 = 0, capacity = 0, malloc = alloc_malloc libc,
      realloc = alloc_realloc libc, free = alloc_free libc\<rparr>"

section \<open>Access\<close>

definition array_get :: "'a codec \<Rightarrow> 'h void_array \<Rightarrow> int \<Rightarrow> 'a result" where
  "array_get c self index =
     (if \<not> (word_of_int index :: u32) < size32 self
      then Inl (Assertion_failed ''(uint32_t) index < (self)->size'')
      else case contents self of
        None \<Rightarrow> Inl Null_deref
      | Some b \<Rightarrow>
          if 0 \<le> index \<and> nat index * elem_size c + elem_size c \<le> length b
          then Inr (decode c (take (elem_size c) (drop (nat index * elem_size c) b)))
          else Inl Out_of_bounds)"

definition array_head :: "'a codec \<Rightarrow> 'h void_array \<Rightarrow> 'a result" where
  "array_head c self = array_get c self 0"

definition array_last :: "'a codec \<Rightarrow> 'h void_array \<Rightarrow> 'a result" where
  "array_last c self = array_get c self (uint (size32 self - 1))"

section \<open>Mutation\<close>

definition array_clear :: "'h void_array \<Rightarrow> 'h void_array" where
  "array_clear self = self\<lparr>size32 := 0\<rparr>"

definition array_delete :: "'h state \<Rightarrow> 'h state" where
  "array_delete s = array__delete s"

definition array_push :: "'a codec \<Rightarrow> 'a \<Rightarrow> 'h state \<Rightarrow> 'h state result" where
  "array_push c element s =
     (let (self, h) = array__grow 1 (elem_size c) s
      in res_bind (mem_store (unat (size32 self) * elem_size c) (encode c element) (contents self))
           (\<lambda>p. Inr (self\<lparr>contents := p, size32 := size32 self + 1\<rparr>, h)))"

definition array_insert :: "'a codec \<Rightarrow> u32 \<Rightarrow> 'a \<Rightarrow> 'h state \<Rightarrow> 'h state result" where
  "array_insert c index element s = array__splice (elem_size c) index 0 1 (Some (encode c element)) s"

definition array_grow_by :: "'a codec \<Rightarrow> nat \<Rightarrow> 'h state \<Rightarrow> 'h state result" where
  "array_grow_by c count s =
     (let (self, h) = array__grow count (elem_size c) s
      in res_bind (memset (contents self) (unat (size32 self) * elem_size c) 0 (count * elem_size c))
           (\<lambda>p. Inr (self\<lparr>contents := p, size32 := size32 self + word_of_nat count\<rparr>, h)))"

section \<open>Abstraction and invariant\<close>

definition array_elems :: "'a codec \<Rightarrow> 'h void_array \<Rightarrow> 'a list" where
  "array_elems c self = decode_elems c (unat (size32 self)) (bytes_of (contents self))"

definition array_inv :: "'a codec \<Rightarrow> 'h void_array \<Rightarrow> bool" where
  "array_inv c self \<longleftrightarrow>
     va_inv (elem_size c) self \<and>
     take (unat (size32 self) * elem_size c) (bytes_of (contents self)) = encode_all c (array_elems c self)"

lemma length_array_elems [simp]: "length (array_elems c self) = unat (size32 self)"
  by (simp add: array_elems_def decode_elems_def)

lemma array_inv_take:
  assumes "codec_ok c" "array_inv c self" "k \<le> unat (size32 self)"
  shows "take (k * elem_size c) (bytes_of (contents self)) = encode_all c (take k (array_elems c self))"
proof -
  let ?S = "unat (size32 self)" and ?e = "elem_size c" and ?B = "bytes_of (contents self)"
  have m: "min (k * ?e) (?S * ?e) = k * ?e" using assms(3) by simp
  have "take (k * ?e) ?B = take (k * ?e) (take (?S * ?e) ?B)" by (simp only: take_take m)
  also have "\<dots> = take (k * ?e) (encode_all c (array_elems c self))"
    using assms(2) by (simp only: array_inv_def)
  also have "\<dots> = encode_all c (take k (array_elems c self))"
    by (rule take_encode_all [OF assms(1)])
  finally show ?thesis .
qed

lemma array_inv_slice:
  assumes "codec_ok c" "array_inv c self" "k \<le> unat (size32 self)"
  shows "take ((unat (size32 self) - k) * elem_size c) (drop (k * elem_size c) (bytes_of (contents self))) =
         encode_all c (drop k (array_elems c self))"
proof -
  let ?S = "unat (size32 self)" and ?e = "elem_size c" and ?B = "bytes_of (contents self)"
  have "k * ?e + (?S - k) * ?e = ?S * ?e" using assms(3) by (metis add_mult_distrib le_add_diff_inverse)
  then have "take ((?S - k) * ?e) (drop (k * ?e) ?B) = take ((?S - k) * ?e) (drop (k * ?e) (take (?S * ?e) ?B))"
    by (intro take_drop_prefix [of "?S * ?e"]) simp_all
  also have "\<dots> = take ((?S - k) * ?e) (drop (k * ?e) (encode_all c (array_elems c self)))"
    using assms(2) by (simp only: array_inv_def)
  also have "\<dots> = take ((?S - k) * ?e) (encode_all c (drop k (array_elems c self)))"
    by (simp only: drop_encode_all [OF assms(1)])
  also have "\<dots> = encode_all c (drop k (array_elems c self))"
    using assms(1) by (simp add: length_encode_all)
  finally show ?thesis .
qed

text \<open>A state whose valid prefix stores \<open>zs\<close> has the elements \<open>zs\<close>.\<close>

lemma array_invI:
  assumes "codec_ok c" "va_inv (elem_size c) self"
    and "take (unat (size32 self) * elem_size c) (bytes_of (contents self)) = encode_all c zs"
    and "length zs = unat (size32 self)"
  shows "array_inv c self" "array_elems c self = zs"
proof -
  show el: "array_elems c self = zs"
    unfolding array_elems_def using assms(1,3,4) by (rule decode_elems_eq)
  show "array_inv c self"
    unfolding array_inv_def el using assms(2,3) by (rule conjI)
qed



lemma array_new_simps [simp]:
  "contents (array_new libc) = None" "size32 (array_new libc) = 0" "capacity (array_new libc) = 0"
  by (simp_all add: array_new_def)

lemma array_new_inv: "array_inv c (array_new libc)"
  by (simp add: array_inv_def array_new_def va_inv_def array_elems_def decode_elems_def)

lemma array_new_elems: "array_elems c (array_new libc) = []"
  by (simp add: array_new_def array_elems_def decode_elems_def)

lemma alloc_sound_array_new_log: "alloc_sound (array_new log_alloc)"
  by (simp add: alloc_sound_def array_new_def log_alloc_def log_malloc_ok log_realloc_ok log_never_null)

text \<open>The element an access returns, when the index is in range, and the assertion otherwise.\<close>

lemma array_get_Inr:
  assumes inv: "va_inv (elem_size c) self" and i: "0 \<le> i" "i < uint (size32 self)"
  shows "array_get c self i = Inr (array_elems c self ! nat i)"
proof -
  let ?e = "elem_size c" and ?S = "unat (size32 self)"
  have lt: "i < 2 ^ 32" using i(2) uint_lt2p [of "size32 self"] by simp
  have w: "(word_of_int i :: u32) < size32 self"
    using i lt by (simp add: word_of_int_less_u32)
  have iS: "nat i < ?S"
  proof -
    have "nat i < nat (uint (size32 self))" using i nat_less_eq_zless by blast
    then show ?thesis by (simp only: nat_uint_eq)
  qed
  have SC: "?S \<le> unat (capacity self)" using va_invD(1) [OF inv] by (simp add: word_le_nat_alt)
  then have "capacity self \<noteq> 0" using iS by (auto simp: unat_eq_zero)
  then obtain b where b: "contents self = Some b"
    using va_invD(3) [OF inv] by (cases "contents self") simp_all
  have lb: "length b = unat (capacity self) * ?e" using va_invD(2) [OF inv] b by simp
  have "nat i * ?e + ?e \<le> length b"
  proof -
    have "Suc (nat i) \<le> unat (capacity self)" using iS SC by linarith
    then have "Suc (nat i) * ?e \<le> unat (capacity self) * ?e" by (rule mult_le_mono1)
    then show ?thesis using lb by simp
  qed
  moreover have "array_elems c self ! nat i = decode c (take ?e (drop (nat i * ?e) b))"
    using iS b by (simp add: array_elems_def decode_elems_def)
  ultimately show ?thesis
    using w b i by (simp add: array_get_def)
qed

lemma array_get_assert:
  assumes "0 \<le> i" "i < 2 ^ 32" "uint (size32 self) \<le> i"
  shows "array_get c self i = Inl (Assertion_failed ''(uint32_t) index < (self)->size'')"
  using assms by (simp add: array_get_def word_of_int_less_u32)

text \<open>
  An example state for the witnesses: a \<^verbatim>\<open>uint8_t\<close> array bound to the logging
  allocator after pushing 1, 2 and 3 to a fresh one.
\<close>

definition ex_u8_array :: "alloc_event list void_array" where
  "ex_u8_array =
     \<lparr>contents = Some [1, 2, 3, 0, 0, 0, 0, 0], size32 = 3, capacity = 8,
      malloc = log_malloc, realloc = log_realloc, free = log_free\<rparr>"

lemma ex_u8_array_inv: "va_inv 1 ex_u8_array"
  by (simp add: va_inv_def ex_u8_array_def)

lemma ex_u8_array_elems: "array_elems u8_codec ex_u8_array = [1, 2, 3]"
  by (simp add: array_elems_def decode_elems_def ex_u8_array_def u8_codec_def upt_rec)

lemma ex_u8_array_inv_typed: "array_inv u8_codec ex_u8_array"
  using ex_u8_array_inv ex_u8_array_elems
  by (simp add: array_inv_def u8_codec_def ex_u8_array_def)

section \<open>Refinement: the macros implement list operations\<close>

lemma array__splice_elems:
  fixes h :: 'h and index old_count new_count :: u32
  assumes c: "codec_ok c" and inv: "array_inv c self" and al: "alloc_sound self"
    and rng: "unat index + unat old_count \<le> unat (size32 self)"
    and room: "unat (size32 self) + unat new_count < 2 ^ 32"
    and src: "src_ok elements (unat new_count * elem_size c)"
    and ys: "new_bytes elements (unat new_count * elem_size c) = encode_all c ys"
    and lys: "length ys = unat new_count"
  shows "\<exists>self' h'. array__splice (elem_size c) index old_count new_count elements (self, h) = Inr (self', h') \<and>
           array_inv c self' \<and> same_alloc self' self \<and>
           array_elems c self' =
             take (unat index) (array_elems c self) @ ys @ drop (unat index + unat old_count) (array_elems c self)"
proof -
  let ?e = "elem_size c" and ?xs = "array_elems c self"
  let ?I = "unat index" and ?D = "unat old_count" and ?S = "unat (size32 self)"
  have va: "va_inv ?e self" using inv by (simp add: array_inv_def)
  obtain self' h' where run: "array__splice ?e index old_count new_count elements (self, h) = Inr (self', h')"
    and va': "va_inv ?e self'" and sa: "same_alloc self' self"
    and sz: "unat (size32 self') = ?S + unat new_count - ?D"
    and pfx: "take ((?S + unat new_count - ?D) * ?e) (bytes_of (contents self')) =
              take (?I * ?e) (bytes_of (contents self)) @ new_bytes elements (unat new_count * ?e) @
              take ((?S - (?I + ?D)) * ?e) (drop ((?I + ?D) * ?e) (bytes_of (contents self)))"
    using array__splice_bytes [OF va al rng room src, of h] by blast
  let ?zs = "take ?I ?xs @ ys @ drop (?I + ?D) ?xs"
  have "take (unat (size32 self') * ?e) (bytes_of (contents self')) = encode_all c ?zs"
    using pfx sz ys array_inv_take [OF c inv, of ?I] array_inv_slice [OF c inv, of "?I + ?D"] rng
    by simp
  moreover have "length ?zs = unat (size32 self')"
    using sz lys rng by simp
  ultimately show ?thesis
    using run va' sa array_invI [OF c va'] by blast
qed

lemma new_bytes_encode_all:
  "codec_ok c \<Longrightarrow> length ys = k \<Longrightarrow> new_bytes (Some (encode_all c ys)) (k * elem_size c) = encode_all c ys"
  by (simp add: new_bytes_def length_encode_all)

lemma new_bytes_zeros:
  "codec_ok c \<Longrightarrow> new_bytes None (k * elem_size c) = encode_all c (replicate k (elem_zero c))"
  by (simp add: new_bytes_def encode_all_zeros)


text \<open>After \<open>array__grow\<close> has made room for \<open>margin\<close> more elements, the block is live
  and its first \<open>size\<close> elements are those of the array.\<close>

lemma array__grow_elems:
  fixes h :: 'h
  assumes c: "codec_ok c" and inv: "array_inv c self" and al: "alloc_sound self"
    and fits: "unat (capacity self) < unat (size32 self) + margin \<Longrightarrow>
               grow_capacity (unat (capacity self)) (unat (size32 self) + margin) < 2 ^ 32"
    and m: "0 < margin"
  obtains self1 h1 b1 where "array__grow margin (elem_size c) (self, h) = (self1, h1)"
    and "va_inv (elem_size c) self1" "same_alloc self1 self" "size32 self1 = size32 self"
    and "contents self1 = Some b1"
    and "(unat (size32 self) + margin) * elem_size c \<le> length b1"
    and "take (unat (size32 self) * elem_size c) b1 = encode_all c (array_elems c self)"
    and "unat (size32 self) + margin \<le> unat (capacity self1)"
proof -
  let ?e = "elem_size c" and ?S = "unat (size32 self)"
  obtain self1 h1 where g: "array__grow margin ?e (self, h) = (self1, h1)"
    by (cases "array__grow margin ?e (self, h)")
  have va: "va_inv ?e self" using inv by (simp add: array_inv_def)
  note gr = array__grow_room [OF va al fits, of h, unfolded g fst_conv]
  have room1: "?S + margin \<le> unat (capacity self1)" by (rule gr(4))
  then have "capacity self1 \<noteq> 0" using m by (auto simp: unat_eq_zero)
  then obtain b1 where b1: "contents self1 = Some b1"
    using va_invD(3) [OF gr(1)] by (cases "contents self1") simp_all
  have lb1: "length b1 = unat (capacity self1) * ?e" using va_invD(2) [OF gr(1)] b1 by simp
  have "(?S + margin) * ?e \<le> length b1" using room1 lb1 by simp
  moreover have "take (?S * ?e) b1 = encode_all c (array_elems c self)"
  proof -
    have SC: "?S * ?e \<le> unat (capacity self) * ?e"
      using va_invD(1) [OF va] by (simp add: word_le_nat_alt)
    have "take (?S * ?e) b1 = take (?S * ?e) (bytes_of (contents self))"
      using gr(5) b1 SC by (metis min_absorb1 take_take bytes_of_simps(2))
    then show ?thesis using array_inv_take [OF c inv, of ?S] by simp
  qed
  ultimately show ?thesis using that g gr(1-3) b1 room1 by blast
qed

text \<open>What a normal return of \<^verbatim>\<open>array_push\<close> keeps of the state \<^verbatim>\<open>array__grow\<close> left.\<close>

lemma array_push_grow:
  assumes "array_push c x s = Inr (self', h')"
  shows "capacity self' = capacity (fst (array__grow 1 (elem_size c) s)) \<and>
         h' = snd (array__grow 1 (elem_size c) s) \<and>
         malloc self' = malloc (fst (array__grow 1 (elem_size c) s)) \<and>
         realloc self' = realloc (fst (array__grow 1 (elem_size c) s))"
  using assms
  by (cases "array__grow 1 (elem_size c) s")
     (auto simp: array_push_def res_bind_def split: sum.splits)

section \<open>Properties of the public operations\<close>

lemma array_push_room:
  fixes h :: 'h
  assumes c: "codec_ok c" and inv: "array_inv c self" and al: "alloc_sound self"
    and room: "unat (size32 self) < unat (capacity self) \<or> unat (capacity self) + 1 < 2 ^ 32"
  shows "\<exists>self' h'. array_push c x (self, h) = Inr (self', h') \<and> array_inv c self' \<and>
           same_alloc self' self \<and> array_elems c self' = array_elems c self @ [x]"
proof -
  let ?e = "elem_size c" and ?S = "unat (size32 self)" and ?C = "unat (capacity self)"
  have SC: "?S \<le> ?C" using va_invD(1) [of ?e self] inv by (simp add: array_inv_def word_le_nat_alt)
  have fits: "grow_capacity ?C (?S + 1) < 2 ^ 32" if "?C < ?S + 1"
    using that SC room by (intro grow_capacity_fits) simp
  obtain self1 h1 b1 where g: "array__grow 1 ?e (self, h) = (self1, h1)"
    and va1: "va_inv ?e self1" and sa: "same_alloc self1 self" and sz: "size32 self1 = size32 self"
    and b1: "contents self1 = Some b1" and lb1: "(?S + 1) * ?e \<le> length b1"
    and pfx: "take (?S * ?e) b1 = encode_all c (array_elems c self)"
    and room1: "?S + 1 \<le> unat (capacity self1)"
    using array__grow_elems [OF c inv al fits zero_less_one, where h = h] by blast
  let ?b' = "overwrite (?S * ?e) (encode c x) b1"
  have le: "?S * ?e + length (encode c x) \<le> length b1" using lb1 c by (simp add: codec_okD)
  have run: "array_push c x (self, h) = Inr (self1\<lparr>contents := Some ?b', size32 := size32 self + 1\<rparr>, h1)"
    using g b1 sz le by (simp add: array_push_def mem_store_Some)
  have usz: "unat (size32 self + 1) = ?S + 1"
    using room1 le_unat_u32 [OF room1] by (simp add: unat_add_u32)
  let ?self' = "self1\<lparr>contents := Some ?b', size32 := size32 self + 1\<rparr>"
  have "take ((?S + 1) * ?e) ?b' = encode_all c (array_elems c self @ [x])"
    using take_overwrite_end [OF le] pfx c by (simp add: codec_okD add.commute)
  then have pfx': "take (unat (size32 ?self') * ?e) (bytes_of (contents ?self')) =
                   encode_all c (array_elems c self @ [x])"
    using usz by simp
  have len': "length (array_elems c self @ [x]) = unat (size32 ?self')" using usz by simp
  have va': "va_inv ?e ?self'"
    using va1 b1 le room1 usz by (simp add: va_inv_def word_le_nat_alt)
  note r = array_invI [OF c va' pfx' len']
  show ?thesis
    using run sa r by (auto simp: same_alloc_def)
qed

lemma array_push_correct:
  fixes h :: 'h
  assumes c: "codec_ok c" and inv: "array_inv c self" and al: "alloc_sound self"
    and room: "unat (size32 self) < unat (capacity self) \<or> unat (capacity self) < 2 ^ 31"
  shows "\<exists>self' h'. array_push c x (self, h) = Inr (self', h') \<and> array_inv c self' \<and>
           same_alloc self' self \<and> array_elems c self' = array_elems c self @ [x]"
  using room by (intro array_push_room [OF c inv al]) auto

text \<open>
  C1. \<^verbatim>\<open>array_push\<close> appends: on a well-formed array bound to a conforming allocator,
  when the array has a free slot or its capacity is below \<open>2^31\<close> (so that doubling
  it fits a \<^verbatim>\<open>uint32_t\<close>), push returns normally, keeps the invariant and the
  allocator, and the elements become the old ones followed by the pushed value.
\<close>

lemma array_push_elems:
  fixes h :: 'h
  assumes c: "codec_ok c" and inv: "array_inv c self" and al: "alloc_sound self"
    and room: "unat (size32 self) < unat (capacity self) \<or> unat (capacity self) < 2 ^ 31"
  shows "\<exists>self' h'. array_push c x (self, h) = Inr (self', h') \<and> array_inv c self' \<and>
           same_alloc self' self \<and> array_elems c self' = array_elems c self @ [x]"
  using assms by (rule array_push_correct)

theorem array_push_elems_witness:
  "\<exists>self' h'. array_push u8_codec 7 (array_new log_alloc, []) = Inr (self', h') \<and>
     array_inv u8_codec self' \<and> same_alloc self' (array_new log_alloc) \<and>
     array_elems u8_codec self' = [7]"
  using array_push_elems [OF u8_codec_ok array_new_inv alloc_sound_array_new_log, where x = 7 and h = "[]"]
  by (simp add: array_new_elems)

lemma array_insert_correct:
  fixes h :: 'h and index :: u32
  assumes c: "codec_ok c" and inv: "array_inv c self" and al: "alloc_sound self"
    and idx: "unat index \<le> unat (size32 self)" and room: "unat (size32 self) + 1 < 2 ^ 32"
  shows "\<exists>self' h'. array_insert c index x (self, h) = Inr (self', h') \<and> array_inv c self' \<and>
           same_alloc self' self \<and>
           array_elems c self' = take (unat index) (array_elems c self) @ [x] @ drop (unat index) (array_elems c self)"
proof -
  have enc: "encode c x = encode_all c [x]" by simp
  have src: "src_ok (Some (encode_all c [x])) (unat (1 :: u32) * elem_size c)"
    using c by (simp add: src_ok_def codec_okD)
  have ys: "new_bytes (Some (encode_all c [x])) (unat (1 :: u32) * elem_size c) = encode_all c [x]"
    using new_bytes_encode_all [OF c, of "[x]" 1] by simp
  show ?thesis
    using array__splice_elems [OF c inv al _ _ src ys, of index 0 h] idx room
    by (simp add: array_insert_def)
qed

text \<open>
  C2. \<^verbatim>\<open>array_insert(self, index, element)\<close>, with \<open>index <= size\<close> and room for one
  more element in a \<^verbatim>\<open>uint32_t\<close>, returns normally, keeps the invariant and the
  allocator, and leaves the elements before \<open>index\<close> in place, the new element at
  \<open>index\<close>, and the old elements from \<open>index\<close> on shifted one place right.
\<close>

lemma array_insert_elems:
  fixes h :: 'h and index :: u32
  assumes c: "codec_ok c" and inv: "array_inv c self" and al: "alloc_sound self"
    and idx: "unat index \<le> unat (size32 self)" and room: "unat (size32 self) + 1 < 2 ^ 32"
  shows "\<exists>self' h'. array_insert c index x (self, h) = Inr (self', h') \<and> array_inv c self' \<and>
           same_alloc self' self \<and>
           array_elems c self' = take (unat index) (array_elems c self) @ [x] @ drop (unat index) (array_elems c self)"
  using assms by (rule array_insert_correct)

theorem array_insert_elems_witness:
  "\<exists>self' h'. array_insert u8_codec 0 9 (array_new log_alloc, []) = Inr (self', h') \<and>
     array_inv u8_codec self' \<and> same_alloc self' (array_new log_alloc) \<and>
     array_elems u8_codec self' = [9]"
  using array_insert_elems [OF u8_codec_ok array_new_inv alloc_sound_array_new_log, where index = 0 and h = "[]" and x = 9]
  by (simp add: array_new_elems)

lemma array_grow_by_correct:
  fixes h :: 'h
  assumes c: "codec_ok c" and inv: "array_inv c self" and al: "alloc_sound self"
    and fits: "unat (capacity self) < unat (size32 self) + count \<Longrightarrow>
               grow_capacity (unat (capacity self)) (unat (size32 self) + count) < 2 ^ 32"
  shows "\<exists>self' h'. array_grow_by c count (self, h) = Inr (self', h') \<and> array_inv c self' \<and>
           same_alloc self' self \<and> array_elems c self' = array_elems c self @ replicate count (elem_zero c)"
proof (cases "count = 0")
  case True
  have "unat (size32 self) \<le> unat (capacity self)"
    using inv va_invD(1) by (auto simp: array_inv_def word_le_nat_alt)
  then have "array_grow_by c count (self, h) = Inr (self, h)"
    using True by (simp add: array_grow_by_def array__grow_noop memset_def mem_store_def)
  then show ?thesis using inv True by auto
next
  case False
  let ?e = "elem_size c" and ?S = "unat (size32 self)"
  obtain self1 h1 b1 where g: "array__grow count ?e (self, h) = (self1, h1)"
    and va1: "va_inv ?e self1" and sa: "same_alloc self1 self" and sz: "size32 self1 = size32 self"
    and b1: "contents self1 = Some b1" and lb1: "(?S + count) * ?e \<le> length b1"
    and pfx: "take (?S * ?e) b1 = encode_all c (array_elems c self)"
    and room1: "?S + count \<le> unat (capacity self1)"
    using array__grow_elems [OF c inv al fits, where h = h] False by blast
  let ?z = "replicate (count * ?e) (0 :: byte)"
  let ?b' = "overwrite (?S * ?e) ?z b1"
  let ?self' = "self1\<lparr>contents := Some ?b', size32 := size32 self + word_of_nat count\<rparr>"
  have le: "?S * ?e + length ?z \<le> length b1" using lb1 by (simp add: add_mult_distrib)
  have run: "array_grow_by c count (self, h) = Inr (?self', h1)"
    using g b1 sz le by (simp add: array_grow_by_def memset_Some)
  have usz: "unat (size32 self + word_of_nat count) = ?S + count"
  proof -
    have "?S + count < 2 ^ 32" using le_unat_u32 [OF room1] .
    then have "count < 2 ^ 32" by simp
    then show ?thesis using \<open>?S + count < 2 ^ 32\<close> by (simp add: unat_add_u32 unat_of_nat_u32)
  qed
  have "take ((?S + count) * ?e) ?b' = encode_all c (array_elems c self @ replicate count (elem_zero c))"
    using take_overwrite_end [OF le] pfx encode_all_zeros [OF c, of count]
    by (simp add: add_mult_distrib)
  then have pfx': "take (unat (size32 ?self') * ?e) (bytes_of (contents ?self')) =
                   encode_all c (array_elems c self @ replicate count (elem_zero c))"
    using usz by simp
  have len': "length (array_elems c self @ replicate count (elem_zero c)) = unat (size32 ?self')"
    using usz by simp
  have va': "va_inv ?e ?self'"
    using va1 b1 le room1 usz by (simp add: va_inv_def word_le_nat_alt)
  note r = array_invI [OF c va' pfx' len']
  show ?thesis
    using run sa r by (auto simp: same_alloc_def)
qed

text \<open>
  C3. \<^verbatim>\<open>array_grow_by(self, count)\<close>, when the capacity it computes fits a
  \<^verbatim>\<open>uint32_t\<close>, returns normally, keeps the invariant and the allocator, and appends
  \<open>count\<close> zero elements (the value of \<^verbatim>\<open>T\<close> whose bytes are all 0).
\<close>

lemma array_grow_by_elems:
  fixes h :: 'h
  assumes c: "codec_ok c" and inv: "array_inv c self" and al: "alloc_sound self"
    and fits: "unat (capacity self) < unat (size32 self) + count \<Longrightarrow>
               grow_capacity (unat (capacity self)) (unat (size32 self) + count) < 2 ^ 32"
  shows "\<exists>self' h'. array_grow_by c count (self, h) = Inr (self', h') \<and> array_inv c self' \<and>
           same_alloc self' self \<and> array_elems c self' = array_elems c self @ replicate count (elem_zero c)"
  using assms by (rule array_grow_by_correct)

theorem array_grow_by_elems_witness:
  "\<exists>self' h'. array_grow_by u8_codec 2 (array_new log_alloc, []) = Inr (self', h') \<and>
     array_inv u8_codec self' \<and> same_alloc self' (array_new log_alloc) \<and>
     array_elems u8_codec self' = [0, 0]"
proof -
  have "unat (capacity (array_new log_alloc)) < unat (size32 (array_new log_alloc)) + 2 \<Longrightarrow>
        grow_capacity (unat (capacity (array_new log_alloc))) (unat (size32 (array_new log_alloc)) + 2) < 2 ^ 32"
    by (simp add: grow_capacity_def)
  from array_grow_by_elems [OF u8_codec_ok array_new_inv alloc_sound_array_new_log this, where h = "[]"]
  show ?thesis
    by (simp add: array_new_elems elem_zero_def u8_codec_def numeral_2_eq_2)
qed


text \<open>
  C4. \<^verbatim>\<open>array_get(self, i)\<close> for an index \<open>0 <= i < 2^32\<close> of a well-formed array
  returns the element at \<open>i\<close> when \<open>i < size\<close>, and otherwise fails the assertion
  \<^verbatim>\<open>(uint32_t) index < (self)->size\<close>: it never returns stale slots.
\<close>

lemma array_get_eq:
  assumes "va_inv (elem_size c) self" and "0 \<le> i" and "i < 2 ^ 32"
  shows "array_get c self i =
           (if i < uint (size32 self) then Inr (array_elems c self ! nat i)
            else Inl (Assertion_failed ''(uint32_t) index < (self)->size''))"
  by (cases "i < uint (size32 self)")
     (simp_all add: array_get_Inr [OF assms(1,2)] array_get_assert [OF assms(2,3)])

theorem array_get_eq_witness:
  "array_get u8_codec ex_u8_array 1 = Inr 2 \<and>
   array_get u8_codec ex_u8_array 3 = Inl (Assertion_failed ''(uint32_t) index < (self)->size'')"
  using array_get_eq [of u8_codec ex_u8_array 1] array_get_eq [of u8_codec ex_u8_array 3]
    ex_u8_array_inv ex_u8_array_elems
  by (simp add: u8_codec_def ex_u8_array_def)

text \<open>
  C5. \<^verbatim>\<open>array_head\<close> and \<^verbatim>\<open>array_last\<close> of a well-formed array return its first and
  last elements when it is non-empty, and fail the assertion when it is empty (for
  \<^verbatim>\<open>array_last\<close>, \<open>size - 1\<close> wraps to \<open>2^32 - 1\<close>, which the check rejects).
\<close>

lemma array_head_last:
  assumes inv: "va_inv (elem_size c) self"
  shows "array_head c self =
           (if size32 self = 0 then Inl (Assertion_failed ''(uint32_t) index < (self)->size'')
            else Inr (hd (array_elems c self))) \<and>
         array_last c self =
           (if size32 self = 0 then Inl (Assertion_failed ''(uint32_t) index < (self)->size'')
            else Inr (last (array_elems c self)))"
proof -
  let ?S = "unat (size32 self)" and ?xs = "array_elems c self"
  have hd: "array_head c self = (if size32 self = 0 then Inl (Assertion_failed ''(uint32_t) index < (self)->size'')
            else Inr (hd ?xs))"
  proof (cases "size32 self = 0")
    case True
    then show ?thesis using array_get_assert [of 0 self c] by (simp add: array_head_def)
  next
    case False
    then have "0 < ?S" by (simp add: unat_gt_0)
    then have "?xs \<noteq> []" by (metis length_array_elems list.size(3) less_irrefl)
    then show ?thesis using array_get_Inr [OF inv, of 0] False
      by (simp add: array_head_def hd_conv_nth word_neq_0_conv word_less_def)
  qed
  have lst: "array_last c self = (if size32 self = 0 then Inl (Assertion_failed ''(uint32_t) index < (self)->size'')
            else Inr (last ?xs))"
  proof (cases "size32 self = 0")
    case True
    have "\<not> (word_of_int (uint (size32 self - 1)) :: u32) < size32 self"
      using True by (simp only: word_of_int_uint not_less word_zero_le)
    then show ?thesis using True
      by (simp only: array_last_def array_get_def if_True not_False_eq_True) simp
  next
    case False
    then have S: "0 < ?S" by (simp add: unat_gt_0)
    have u: "uint (size32 self - 1) = uint (size32 self) - 1"
      using False by (rule uint_minus_one_u32)
    have "?xs \<noteq> []" using S by (metis length_array_elems list.size(3) less_irrefl)
    moreover have "nat (uint (size32 self) - 1) = ?S - 1"
      by (simp only: nat_diff_distrib' uint_ge_0 nat_uint_eq nat_one_as_int)
    moreover have "0 < uint (size32 self)" using False by (simp add: word_neq_0_conv word_less_def)
    ultimately show ?thesis using array_get_Inr [OF inv, of "uint (size32 self) - 1"] False u
      by (simp add: array_last_def last_conv_nth)
  qed
  show ?thesis using hd lst by (rule conjI)
qed

theorem array_head_last_witness:
  "array_head u8_codec ex_u8_array = Inr 1 \<and> array_last u8_codec ex_u8_array = Inr 3"
  using array_head_last [of u8_codec ex_u8_array] ex_u8_array_inv ex_u8_array_elems
  by (simp add: u8_codec_def ex_u8_array_def)

text \<open>
  C6. \<^verbatim>\<open>array_delete\<close> passes the block to the instance's own \<^verbatim>\<open>free\<close> exactly once
  and leaves the empty state of a freshly constructed array bound to the same allocator,
  ready for reuse.
\<close>

lemma array_delete_resets:
  "array_delete (self, h) =
     (array_new \<lparr>alloc_malloc = malloc self, alloc_realloc = realloc self, alloc_free = free self\<rparr>,
      free self (contents self) h)"
  by (simp add: array_delete_def array__delete_def array_new_def)

text \<open>
  C7. \<^verbatim>\<open>array_clear\<close> empties the array and keeps its capacity, and a push after it on
  an allocated array does not call the allocator: the allocator state is unchanged.
\<close>

lemma array_clear_push_no_realloc:
  assumes c: "codec_ok c" and inv: "va_inv (elem_size c) self" and cap: "capacity self \<noteq> 0"
  shows "capacity (array_clear self) = capacity self \<and> array_elems c (array_clear self) = [] \<and>
         (\<exists>self'. array_push c x (array_clear self, h) = Inr (self', h) \<and>
            capacity self' = capacity self \<and> size32 self' = 1 \<and> same_alloc self' self)"
proof -
  let ?e = "elem_size c"
  obtain b where b: "contents self = Some b"
    using va_invD(3) [OF inv] cap by (cases "contents self") simp_all
  have lb: "length b = unat (capacity self) * ?e" using va_invD(2) [OF inv] b by simp
  have one: "1 \<le> unat (capacity self)" using cap by (simp add: unat_gt_0 Suc_le_eq)
  then have le: "0 + length (encode c x) \<le> length b"
    using lb codec_okD(2) [OF c] by (metis add_0 mult_1 mult_le_mono1)
  have g: "array__grow 1 ?e (array_clear self, h) = (array_clear self, h)"
    using one by (simp add: array__grow_def array_clear_def)
  have "array_push c x (array_clear self, h) =
        Inr ((array_clear self)\<lparr>contents := Some (overwrite 0 (encode c x) b), size32 := 1\<rparr>, h)"
    using g b le by (simp add: array_push_def array_clear_def mem_store_Some del: add_0)
  then show ?thesis
    by (simp add: array_clear_def array_elems_def decode_elems_def same_alloc_def)
qed

theorem array_clear_push_no_realloc_witness:
  "\<exists>self'. array_push u8_codec 5 (array_clear ex_u8_array, [Ev_malloc 8]) = Inr (self', [Ev_malloc 8]) \<and>
     capacity self' = 8 \<and> size32 self' = 1 \<and> same_alloc self' ex_u8_array"
  using array_clear_push_no_realloc [OF u8_codec_ok, of ex_u8_array 5 "[Ev_malloc 8]"] ex_u8_array_inv
  by (simp add: u8_codec_def ex_u8_array_def)

text \<open>
  C8. The assertion of \<^verbatim>\<open>array_get\<close> checks the index cast to \<^verbatim>\<open>uint32_t\<close>, while the
  access uses the index itself: an index outside \<open>[0, 2^32)\<close> whose cast is below the
  size passes the check and reads outside the block.
\<close>

lemma array_get_cast:
  assumes inv: "va_inv (elem_size c) self" and c: "0 < elem_size c"
    and i: "\<not> (0 \<le> i \<and> i < 2 ^ 32)" and w: "(word_of_int i :: u32) < size32 self"
  shows "array_get c self i = Inl Out_of_bounds"
proof -
  have "size32 self \<noteq> 0" using w by auto
  then have "capacity self \<noteq> 0" using va_invD(1) [OF inv] by (auto simp: word_le_nat_alt unat_eq_zero)
  then obtain b where b: "contents self = Some b"
    using va_invD(3) [OF inv] by (cases "contents self") simp_all
  have lb: "length b = unat (capacity self) * elem_size c" using va_invD(2) [OF inv] b by simp
  have "\<not> (0 \<le> i \<and> nat i * elem_size c + elem_size c \<le> length b)"
  proof
    assume a: "0 \<le> i \<and> nat i * elem_size c + elem_size c \<le> length b"
    then have "2 ^ 32 \<le> i" using i by linarith
    then have "2 ^ 32 \<le> nat i" using a by (simp add: le_nat_iff)
    moreover have "unat (capacity self) < 2 ^ 32" using unat_u32_bound [of "capacity self"] by simp
    ultimately have "unat (capacity self) < nat i" by linarith
    then have "unat (capacity self) * elem_size c < nat i * elem_size c" using c by simp
    then show False using a lb by linarith
  qed
  then show ?thesis using w b by (simp add: array_get_def)
qed

theorem array_get_cast_witness:
  "array_get u8_codec ex_u8_array (2 ^ 32 + 1) = Inl Out_of_bounds"
proof -
  have "(word_of_int (2 ^ 32 + 1) :: u32) < size32 ex_u8_array"
    by (simp add: ex_u8_array_def)
  moreover have "\<not> (0 \<le> (2 ^ 32 + 1 :: int) \<and> (2 ^ 32 + 1 :: int) < 2 ^ 32)" by simp
  ultimately show ?thesis
    using array_get_cast [OF _ _ _ , of u8_codec ex_u8_array "2 ^ 32 + 1"] ex_u8_array_inv
    by (simp add: u8_codec_def)
qed

end
