(* ===== verification/Array_Limits.thy ===== *)
theory Array_Limits
  imports Array_Ops
begin

text \<open>
  The behaviour of \<^verbatim>\<open>src/src/array.h\<close> at the edges of its arithmetic and of the
  allocator: the \<^verbatim>\<open>unsigned int\<close> doubling and the \<^verbatim>\<open>size_t\<close> to \<^verbatim>\<open>uint32_t\<close>
  conversion in \<^verbatim>\<open>array__grow\<close>, the
  \<^verbatim>\<open>uint32_t\<close> wrap of \<^verbatim>\<open>index + old_count\<close> in \<^verbatim>\<open>array__splice\<close>, the capacity
  each growth path chooses, removal by splicing, and a \<open>NULL\<close> return of the allocator
  inside \<^verbatim>\<open>array__reserve\<close>.
\<close>

section \<open>Example states\<close>

text \<open>Full \<^verbatim>\<open>uint8_t\<close> arrays of capacity \<open>2^31\<close> and \<open>2^32 - 1\<close>, the largest
  \<^verbatim>\<open>uint32_t\<close>.\<close>

definition big_u8_array :: "alloc_event list void_array" where
  "big_u8_array =
     \<lparr>contents = Some (replicate (2 ^ 31) 0), size32 = 2 ^ 31, capacity = 2 ^ 31,
      malloc = log_malloc, realloc = log_realloc, free = log_free\<rparr>"

definition top_u8_array :: "alloc_event list void_array" where
  "top_u8_array =
     \<lparr>contents = Some (replicate (2 ^ 32 - 1) 0), size32 = 4294967295, capacity = 4294967295,
      malloc = log_malloc, realloc = log_realloc, free = log_free\<rparr>"

text \<open>A full \<^verbatim>\<open>uint8_t\<close> array holding \<open>1 .. 8\<close> at its first capacity.\<close>

definition full_u8_array :: "alloc_event list void_array" where
  "full_u8_array =
     \<lparr>contents = Some [1, 2, 3, 4, 5, 6, 7, 8], size32 = 8, capacity = 8,
      malloc = log_malloc, realloc = log_realloc, free = log_free\<rparr>"

text \<open>An allocator that is out of memory: \<^verbatim>\<open>malloc\<close> and \<^verbatim>\<open>realloc\<close> return \<open>NULL\<close>.\<close>

definition oom_malloc :: "'h malloc_fn" where
  "oom_malloc n h = (None, h)"

definition oom_realloc :: "'h realloc_fn" where
  "oom_realloc b n h = (None, h)"

lemma alloc_sound_log:
  "malloc self = log_malloc \<Longrightarrow> realloc self = log_realloc \<Longrightarrow> alloc_sound self"
  by (simp add: alloc_sound_def log_malloc_ok log_realloc_ok log_never_null)

lemma ex_states_sound:
  "alloc_sound ex_u8_array" "alloc_sound full_u8_array" "alloc_sound big_u8_array"
  "alloc_sound top_u8_array"
  by (simp_all add: alloc_sound_log ex_u8_array_def full_u8_array_def big_u8_array_def top_u8_array_def)

lemma ex_states_inv:
  "va_inv 1 full_u8_array" "va_inv 1 big_u8_array" "va_inv 1 top_u8_array"
  by (simp_all add: va_inv_def full_u8_array_def big_u8_array_def top_u8_array_def)

lemma big_u8_array_inv:
  "array_inv u8_codec big_u8_array \<and> array_elems u8_codec big_u8_array = replicate (2 ^ 31) 0"
proof -
  have "take (unat (size32 big_u8_array) * elem_size u8_codec) (bytes_of (contents big_u8_array)) =
        encode_all u8_codec (replicate (2 ^ 31) (elem_zero u8_codec))"
    using encode_all_zeros [OF u8_codec_ok, of "2 ^ 31"] by (simp add: big_u8_array_def)
  from array_invI [OF u8_codec_ok _ this] ex_states_inv(2) show ?thesis
    by (simp add: big_u8_array_def)
qed

lemma ex_u8_array_capacity: "capacity ex_u8_array = 8"
  by (simp add: ex_u8_array_def)

section \<open>Truncation and wrap-around\<close>

text \<open>
  C9. \<^verbatim>\<open>array__grow\<close> doubles the capacity in \<^verbatim>\<open>unsigned int\<close> and passes the new
  capacity to \<^verbatim>\<open>array__reserve\<close> as a \<^verbatim>\<open>uint32_t\<close>.  On a full array of capacity
  \<open>2^32 - 1\<close> the size needed, \<open>2^32\<close>, becomes 0 in that conversion, nothing is
  reserved, and \<^verbatim>\<open>array_push\<close> writes its element past the end of the block.
\<close>

lemma array_push_overflow:
  assumes c: "codec_ok c" and inv: "va_inv (elem_size c) self"
    and full: "size32 self = capacity self" and top: "unat (capacity self) = 2 ^ 32 - 1"
  shows "array_push c x (self, h) = Inl Out_of_bounds"
proof -
  let ?e = "elem_size c" and ?C = "unat (capacity self)"
  have "unat (capacity self + 1) = 0" using top by (simp add: unat_word_ariths)
  then have z: "capacity self + 1 = 0" by (simp add: unat_eq_zero)
  have g: "array__grow 1 ?e (self, h) = (self, h)"
    using array__grow_wrap [OF full] top z by (simp add: array__reserve_noop)
  have "capacity self \<noteq> 0" using top by (auto simp: unat_eq_zero)
  then obtain b where b: "contents self = Some b"
    using va_invD(3) [OF inv] by (cases "contents self") simp_all
  have lb: "length b = ?C * ?e" using va_invD(2) [OF inv] b by simp
  have "\<not> ?C * ?e + length (encode c x) \<le> length b"
    using lb codec_okD(1) [OF c] codec_okD(2) [OF c, of x] by simp
  moreover have "encode c x \<noteq> []" using codec_okD(1) [OF c] codec_okD(2) [OF c, of x] by auto
  ultimately show ?thesis
    using g b full by (simp add: array_push_def mem_store_def)
qed

theorem array_push_overflow_witness:
  "array_push u8_codec 7 (top_u8_array, []) = Inl Out_of_bounds"
  using array_push_overflow [OF u8_codec_ok, of top_u8_array 7 "[]"] ex_states_inv(3)
  by (simp add: u8_codec_def top_u8_array_def)

text \<open>
  C15. From capacity \<open>2^31\<close> on, the doubling wraps below the size needed, so a push
  on a full array grows the capacity by exactly one element (not to
  \<open>max(8, capacity * 2, needed)\<close> as \<^verbatim>\<open>spec.md\<close> \<section>4 says), as long as
  \<open>capacity + 1\<close> fits a \<^verbatim>\<open>uint32_t\<close>; the push still returns normally and appends.
\<close>

lemma array_push_linear_growth:
  fixes h :: 'h
  assumes c: "codec_ok c" and inv: "array_inv c self" and al: "alloc_sound self"
    and full: "size32 self = capacity self" and big: "2 ^ 31 \<le> unat (capacity self)"
    and fit: "unat (capacity self) + 1 < 2 ^ 32"
  shows "\<exists>self' h'. array_push c x (self, h) = Inr (self', h') \<and>
           unat (capacity self') = unat (capacity self) + 1 \<and>
           array_inv c self' \<and> array_elems c self' = array_elems c self @ [x]"
proof -
  let ?e = "elem_size c"
  obtain self' h' where r: "array_push c x (self, h) = Inr (self', h')" and
    rest: "array_inv c self' \<and> array_elems c self' = array_elems c self @ [x]"
    using array_push_room [OF c inv al, of x h] fit by auto
  have u: "unat (capacity self + 1) = unat (capacity self) + 1"
    using fit by (simp add: unat_word_ariths)
  then have lt: "capacity self < capacity self + 1" by (simp add: word_less_nat_alt)
  have "capacity self' = capacity (fst (array__reserve ?e (capacity self + 1) (self, h)))"
    using array_push_grow [OF r] array__grow_wrap [OF full big] by simp
  also have "\<dots> = capacity self + 1"
    using array__reserve_fields(2) [of ?e "capacity self + 1" "(self, h)"] lt by (simp add: max_def)
  finally show ?thesis using r rest u by simp
qed

theorem array_push_linear_growth_witness:
  "\<exists>self' h'. array_push u8_codec 7 (big_u8_array, []) = Inr (self', h') \<and>
     unat (capacity self') = 2 ^ 31 + 1 \<and>
     array_inv u8_codec self' \<and> array_elems u8_codec self' = replicate (2 ^ 31) 0 @ [7]"
  using array_push_linear_growth [OF u8_codec_ok _ ex_states_sound(3), where x = 7 and h = "[]"]
    big_u8_array_inv
  by (simp add: big_u8_array_def)

text \<open>
  C10. The assertion \<^verbatim>\<open>old_end <= self->size\<close> of \<^verbatim>\<open>array__splice\<close> is evaluated on
  \<^verbatim>\<open>index + old_count\<close> in \<^verbatim>\<open>uint32_t\<close>.  A range that wraps to exactly the size
  passes it; the call then returns normally and a removal of \<open>old_count\<close> elements
  leaves the array with \<open>index\<close> elements, more than it had.
\<close>

lemma array__splice_wrapped_removal:
  assumes wrap: "unat index + unat old_count = unat (size32 self) + 2 ^ 32"
  shows "\<exists>self' h'. array__splice e index old_count 0 elements (self, h) = Inr (self', h') \<and>
           size32 self' = index \<and> unat (size32 self) < unat index"
proof -
  have oe: "index + old_count = size32 self"
  proof -
    have "unat (index + old_count) = (unat index + unat old_count) mod 2 ^ 32"
      by (simp add: unat_word_ariths)
    also have "\<dots> = unat (size32 self)" using wrap by simp
    finally show ?thesis by (simp add: word_unat_eq_iff)
  qed
  have sz: "size32 self + 0 - old_count = index" using oe [symmetric] by simp
  have lt: "unat (size32 self) < unat index"
    using wrap unat_u32_bound [of old_count] by (simp del: unat_u32_bound)
  obtain self1 h1 where r: "array__reserve e (size32 self + 0 - old_count) (self, h) = (self1, h1)"
    by (cases "array__reserve e (size32 self + 0 - old_count) (self, h)")
  have "size32 self1 = size32 self"
    using array__reserve_fields(1) [of e "size32 self + 0 - old_count" "(self, h)"] r by simp
  then show ?thesis
    using oe r sz lt by (simp add: array__splice_def Let_def)
qed

theorem array__splice_wrapped_removal_witness:
  "\<exists>self' h'. array__splice 1 5 4294967294 0 None (ex_u8_array, []) = Inr (self', h') \<and>
     size32 self' = 5 \<and> unat (size32 ex_u8_array) < unat (5 :: u32)"
  using array__splice_wrapped_removal [where index = 5 and old_count = 4294967294 and
      self = ex_u8_array and e = 1 and elements = None and h = "[]"]
  by (simp add: ex_u8_array_def)




section \<open>Well-formedness of every normal return\<close>

text \<open>
  C27. The private functions never leave an ill-formed struct when they return
  normally, whatever their arguments, as long as the allocator keeps its contract:
  \<^verbatim>\<open>array__reserve\<close> and \<^verbatim>\<open>array__grow\<close> keep \<open>size <= capacity\<close>, \<open>contents\<close> is
  \<open>NULL\<close> iff \<open>capacity = 0\<close> and a block of \<open>capacity\<close> elements (even when the capacity
  wraps, C9); \<^verbatim>\<open>array__delete\<close> leaves the empty struct; and every normal return
  of \<^verbatim>\<open>array__splice\<close> is well-formed and keeps the allocator (even a wrapped one, C10).
\<close>

theorem private_ops_well_formed:
  fixes h :: 'h
  assumes inv: "va_inv e self" and al: "alloc_sound self"
  shows "va_inv e (fst (array__reserve e n (self, h))) \<and>
         va_inv e (fst (array__grow margin e (self, h))) \<and>
         va_inv e (fst (array__delete (self, h))) \<and>
         (\<forall>self' h'. array__splice e index old_count new_count elements (self, h) = Inr (self', h') \<longrightarrow>
            va_inv e self' \<and> same_alloc self' self)"
  using array__reserve_inv(1) [OF inv al] array__grow_inv [OF inv al] array__delete_inv
    array__splice_Inr_inv [OF inv al]
  by blast

theorem private_ops_well_formed_witness:
  "va_inv 1 (fst (array__reserve 1 16 (ex_u8_array, []))) \<and>
   va_inv 1 (fst (array__grow 6 1 (ex_u8_array, []))) \<and>
   va_inv 1 (fst (array__delete (ex_u8_array, []))) \<and>
   (\<exists>self' h'. array__splice 1 5 4294967294 0 None (ex_u8_array, []) = Inr (self', h') \<and>
      size32 self' = 5 \<and> va_inv 1 self' \<and> same_alloc self' ex_u8_array)"
proof -
  have r: "array__splice 1 5 4294967294 0 None (ex_u8_array, []) =
           Inr (ex_u8_array\<lparr>size32 := 5\<rparr>, [])"
    by (simp add: array__splice_def array__reserve_def ex_u8_array_def)
  show ?thesis
    using private_ops_well_formed [OF ex_u8_array_inv ex_states_sound(1), where n = 16 and margin = 6
        and index = 5 and old_count = 4294967294 and new_count = 0 and elements = None and h = "[]"] r
    by simp
qed

section \<open>Growth policy\<close>

text \<open>
  C11. When \<^verbatim>\<open>array__grow\<close> has to grow, the new capacity is the largest of \<open>8\<close>,
  twice the old capacity and the size needed, provided that fits in \<^verbatim>\<open>uint32_t\<close>; the
  size and the bytes of the old block are kept.
\<close>

lemma array__grow_policy:
  fixes h :: 'h
  assumes inv: "va_inv e self" and al: "alloc_sound self"
    and need: "unat (capacity self) < unat (size32 self) + margin"
    and fits: "max (max 8 (2 * unat (capacity self))) (unat (size32 self) + margin) < 2 ^ 32"
  shows "unat (capacity (fst (array__grow margin e (self, h)))) =
           max (max 8 (2 * unat (capacity self))) (unat (size32 self) + margin) \<and>
         size32 (fst (array__grow margin e (self, h))) = size32 self \<and>
         take (unat (capacity self) * e) (bytes_of (contents (fst (array__grow margin e (self, h))))) =
           bytes_of (contents self)"
  using array__grow_room [OF inv al _, of margin h] need fits
  by (simp add: grow_capacity_eq)

theorem array__grow_policy_witness:
  "unat (capacity (fst (array__grow 6 1 (ex_u8_array, [])))) = 16"
  using array__grow_policy [OF ex_u8_array_inv ex_states_sound(1), of 6 "[]"]
  by (simp add: ex_u8_array_def)

text \<open>
  C12. \<^verbatim>\<open>array_insert\<close> reserves through \<^verbatim>\<open>array__splice\<close>, which asks
  \<^verbatim>\<open>array__reserve\<close> for exactly the new size: inserting into a full array grows its
  capacity by one element, not by the doubling policy of \<^verbatim>\<open>array__grow\<close>.
\<close>

lemma array_insert_exact_capacity:
  fixes h :: 'h and index :: u32
  assumes c: "codec_ok c" and inv: "va_inv (elem_size c) self" and al: "alloc_sound self"
    and full: "size32 self = capacity self"
    and idx: "unat index \<le> unat (size32 self)" and room: "unat (size32 self) + 1 < 2 ^ 32"
  shows "\<exists>self' h'. array_insert c index x (self, h) = Inr (self', h') \<and>
           unat (capacity self') = unat (capacity self) + 1"
proof -
  have src: "src_ok (Some (encode c x)) (unat (1 :: u32) * elem_size c)"
    using c by (simp add: src_ok_def codec_okD)
  show ?thesis
    using array__splice_bytes [OF inv al _ _ src, of index 0 h] idx room full
    by (auto simp: array_insert_def)
qed

theorem array_insert_exact_capacity_witness:
  "\<exists>self' h'. array_insert u8_codec 0 9 (full_u8_array, []) = Inr (self', h') \<and>
     unat (capacity self') = 9"
  using array_insert_exact_capacity [OF u8_codec_ok, where self = full_u8_array and index = 0
      and h = "[]" and x = 9]
    ex_states_inv(1) ex_states_sound(2)
  by (simp add: u8_codec_def full_u8_array_def)

text \<open>
  C32. On an empty array the first \<^verbatim>\<open>array_insert\<close> makes one \<^verbatim>\<open>malloc\<close> of
  exactly one element (where the growth policy, and \<^verbatim>\<open>array_push\<close>, allocate 8) and
  leaves the array holding just the inserted value.
\<close>

theorem array_insert_empty_alloc:
  assumes c: "codec_ok c"
  shows "\<exists>self'. array_insert c 0 x (array_new log_alloc, []) = Inr (self', [Ev_malloc (elem_size c)]) \<and>
           unat (capacity self') = 1 \<and> array_elems c self' = [x]"
proof -
  let ?e = "elem_size c"
  have len: "length (encode c x) = ?e" using codec_okD(2) [OF c] .
  have ne: "encode c x \<noteq> []" using len codec_okD(1) [OF c] by auto
  have "array_insert c 0 x (array_new log_alloc, []) =
        Inr ((array_new log_alloc)\<lparr>contents := Some (encode c x), capacity := 1, size32 := 1\<rparr>,
             [Ev_malloc ?e])"
    using len ne
    by (simp add: array_insert_def array__splice_def array__reserve_def array_new_def log_alloc_def
        log_malloc_def memcpy_def mem_store_def overwrite_def)
  moreover have "array_elems c ((array_new log_alloc)\<lparr>contents := Some (encode c x), capacity := 1,
      size32 := 1\<rparr>) = [x]"
    using len codec_okD(3) [OF c] by (simp add: array_elems_def decode_elems_def array_new_def)
  ultimately show ?thesis by (simp add: array_new_def)
qed

theorem array_insert_empty_alloc_witness:
  "\<exists>self'. array_insert u8_codec 0 7 (array_new log_alloc, []) = Inr (self', [Ev_malloc 1]) \<and>
     unat (capacity self') = 1 \<and> array_elems u8_codec self' = [7]"
  using array_insert_empty_alloc [OF u8_codec_ok, where x = 7] by simp

section \<open>Removal\<close>

text \<open>
  C13. A splice that inserts nothing removes the elements \<open>[index, index + old_count)\<close>
  of a well-formed array when that range lies within the size: the result is well-formed,
  keeps its capacity, and holds the elements before the range followed by those after it.
\<close>

lemma array__splice_typed:
  fixes h :: 'h and index old_count new_count :: u32
  assumes c: "codec_ok c" and inv: "array_inv c self" and al: "alloc_sound self"
    and rng: "unat index + unat old_count \<le> unat (size32 self)"
    and room: "unat (size32 self) + unat new_count < 2 ^ 32"
    and src: "src_ok elements (unat new_count * elem_size c)"
    and ys: "new_bytes elements (unat new_count * elem_size c) = encode_all c ys"
    and lys: "length ys = unat new_count"
  shows "\<exists>self' h'. array__splice (elem_size c) index old_count new_count elements (self, h) = Inr (self', h') \<and>
           array_inv c self' \<and> same_alloc self' self \<and>
           unat (capacity self') =
             max (unat (capacity self)) (unat (size32 self) + unat new_count - unat old_count) \<and>
           array_elems c self' =
             take (unat index) (array_elems c self) @ ys @ drop (unat index + unat old_count) (array_elems c self)"
proof -
  have va: "va_inv (elem_size c) self" using inv by (simp add: array_inv_def)
  obtain self' h' where r: "array__splice (elem_size c) index old_count new_count elements (self, h) =
      Inr (self', h')"
    and rest: "array_inv c self' \<and> same_alloc self' self \<and>
      array_elems c self' =
        take (unat index) (array_elems c self) @ ys @ drop (unat index + unat old_count) (array_elems c self)"
    using array__splice_elems [OF c inv al rng room src ys lys, of h] by blast
  obtain self'' h'' where
    "array__splice (elem_size c) index old_count new_count elements (self, h) = Inr (self'', h'')"
    "unat (capacity self'') =
       max (unat (capacity self)) (unat (size32 self) + unat new_count - unat old_count)"
    using array__splice_bytes [OF va al rng room src, of h] by auto
  then show ?thesis using r rest by auto
qed

lemma array__splice_remove_elems:
  fixes h :: 'h and index old_count :: u32
  assumes c: "codec_ok c" and inv: "array_inv c self" and al: "alloc_sound self"
    and rng: "unat index + unat old_count \<le> unat (size32 self)"
  shows "\<exists>self' h'. array__splice (elem_size c) index old_count 0 elements (self, h) = Inr (self', h') \<and>
           array_inv c self' \<and> capacity self' = capacity self \<and>
           array_elems c self' =
             take (unat index) (array_elems c self) @ drop (unat index + unat old_count) (array_elems c self)"
proof -
  have src: "src_ok elements (unat (0 :: u32) * elem_size c)"
    by (simp add: src_ok_def split: option.split)
  have ys: "new_bytes elements (unat (0 :: u32) * elem_size c) = encode_all c []"
    by (simp add: new_bytes_def split: option.split)
  obtain self' h' where r: "array__splice (elem_size c) index old_count 0 elements (self, h) = Inr (self', h')"
    and i': "array_inv c self'"
    and cap: "unat (capacity self') = max (unat (capacity self)) (unat (size32 self) - unat old_count)"
    and el: "array_elems c self' =
             take (unat index) (array_elems c self) @ drop (unat index + unat old_count) (array_elems c self)"
    using array__splice_typed [OF c inv al rng _ src ys, of h] by auto
  have "unat (size32 self) \<le> unat (capacity self)"
    using inv va_invD(1) by (auto simp: array_inv_def word_le_nat_alt)
  then have "unat (capacity self') = unat (capacity self)" using cap by (simp add: max_def) arith
  then have "capacity self' = capacity self" by (simp add: word_unat_eq_iff)
  then show ?thesis using r i' el by blast
qed

theorem array__splice_remove_elems_witness:
  "\<exists>self' h'. array__splice 1 0 1 0 None (ex_u8_array, []) = Inr (self', h') \<and>
     array_inv u8_codec self' \<and> capacity self' = 8 \<and> array_elems u8_codec self' = [2, 3]"
proof -
  have "unat (0 :: u32) + unat (1 :: u32) \<le> unat (size32 ex_u8_array)"
    by (simp add: ex_u8_array_def)
  then show ?thesis
    using array__splice_remove_elems [OF u8_codec_ok ex_u8_array_inv_typed ex_states_sound(1),
        where index = 0 and old_count = 1 and elements = None and h = "[]"]
    by (simp add: ex_u8_array_elems ex_u8_array_capacity)
qed

text \<open>
  C30. The general splice: replacing the \<open>old_count\<close> elements at \<open>index\<close> (a range
  within the size) by \<open>new_count\<close> elements, copied from the caller's encoding of
  \<open>ys\<close> or zero-filled when the source is \<open>NULL\<close>, returns normally when the new size
  fits a \<^verbatim>\<open>uint32_t\<close>, keeps the invariant, reserves exactly the new size when it
  exceeds the capacity, and yields the elements before the range, then \<open>ys\<close>, then
  the elements after the range.
\<close>

theorem array__splice_refines:
  fixes h :: 'h and index old_count new_count :: u32
  assumes c: "codec_ok c" and inv: "array_inv c self" and al: "alloc_sound self"
    and rng: "unat index + unat old_count \<le> unat (size32 self)"
    and room: "unat (size32 self) + unat new_count < 2 ^ 32"
    and source: "(elements = Some (encode_all c ys) \<and> length ys = unat new_count) \<or>
                 (elements = None \<and> ys = replicate (unat new_count) (elem_zero c))"
  shows "\<exists>self' h'. array__splice (elem_size c) index old_count new_count elements (self, h) = Inr (self', h') \<and>
           array_inv c self' \<and>
           unat (capacity self') =
             max (unat (capacity self)) (unat (size32 self) + unat new_count - unat old_count) \<and>
           array_elems c self' =
             take (unat index) (array_elems c self) @ ys @ drop (unat index + unat old_count) (array_elems c self)"
proof -
  have lys: "length ys = unat new_count" using source by auto
  have src: "src_ok elements (unat new_count * elem_size c)"
    using source c by (auto simp: src_ok_def length_encode_all)
  have "new_bytes elements (unat new_count * elem_size c) = encode_all c ys"
    using source new_bytes_encode_all [OF c lys] new_bytes_zeros [OF c] by auto
  from array__splice_typed [OF c inv al rng room src this lys, of h] show ?thesis by blast
qed

theorem array__splice_refines_witness:
  "\<exists>self' h'. array__splice 1 1 1 2 (Some [7, 8]) (ex_u8_array, []) = Inr (self', h') \<and>
     array_inv u8_codec self' \<and> unat (capacity self') = 8 \<and> array_elems u8_codec self' = [1, 7, 8, 3]"
proof -
  have e: "encode_all u8_codec [7, 8] = [7, 8]" by (simp add: u8_codec_def)
  show ?thesis
    using array__splice_refines [OF u8_codec_ok ex_u8_array_inv_typed ex_states_sound(1),
        where index = 1 and old_count = 1 and new_count = 2 and elements = "Some [7, 8]"
        and ys = "[7, 8] :: byte list" and h = "[]"] e
    by (simp add: ex_u8_array_elems ex_u8_array_capacity) (simp add: ex_u8_array_def u8_codec_def)
qed

section \<open>Allocation failure\<close>

text \<open>
  C14. \<^verbatim>\<open>array__reserve\<close> does not check the result of \<^verbatim>\<open>realloc\<close> or \<^verbatim>\<open>malloc\<close>:
  when the allocator returns \<open>NULL\<close>, the array is left with \<open>NULL\<close> contents and the
  requested capacity, which breaks the invariant (the old block is lost).
\<close>

lemma array__reserve_null:
  assumes grow: "capacity self < n"
    and null: "fst (case contents self of
                      Some b \<Rightarrow> realloc self b (unat n * e) h
                    | None \<Rightarrow> malloc self (unat n * e) h) = None"
  shows "contents (fst (array__reserve e n (self, h))) = None \<and>
         capacity (fst (array__reserve e n (self, h))) = n \<and>
         \<not> va_inv e (fst (array__reserve e n (self, h)))"
proof -
  have n: "n \<noteq> 0" using grow by auto
  have c1: "contents (fst (array__reserve e n (self, h))) = None"
    using grow null by (auto simp: array__reserve_def split: prod.splits option.splits)
  have c2: "capacity (fst (array__reserve e n (self, h))) = n"
    using grow by (auto simp: array__reserve_def split: prod.splits option.splits)
  then show ?thesis
    using c1 n by (simp add: va_inv_def)
qed

theorem array__reserve_null_witness:
  "contents (fst (array__reserve 1 16 (ex_u8_array\<lparr>realloc := oom_realloc\<rparr>, []))) = None \<and>
   capacity (fst (array__reserve 1 16 (ex_u8_array\<lparr>realloc := oom_realloc\<rparr>, []))) = 16 \<and>
   \<not> va_inv 1 (fst (array__reserve 1 16 (ex_u8_array\<lparr>realloc := oom_realloc\<rparr>, [])))"
  using array__reserve_null [of "ex_u8_array\<lparr>realloc := oom_realloc\<rparr>" 16 1 "[]"]
  by (simp add: ex_u8_array_def oom_realloc_def)

text \<open>
  C29. A push that has to grow while the allocator is out of memory writes through
  \<open>NULL\<close>: on a full array (capacity below \<open>2^31\<close>) whose \<^verbatim>\<open>malloc\<close> and
  \<^verbatim>\<open>realloc\<close> return \<open>NULL\<close>, \<^verbatim>\<open>array_push\<close> stores its element at
  \<^verbatim>\<open>NULL + size\<close>, a fault in place of the fatal allocation failure \<^verbatim>\<open>spec.md\<close>
  \<section>4 asks for.
\<close>

lemma array_push_oom:
  assumes c: "codec_ok c" and full: "size32 self = capacity self"
    and small: "unat (capacity self) < 2 ^ 31"
    and m: "malloc self = oom_malloc" and r: "realloc self = oom_realloc"
  shows "array_push c x (self, h) = Inl Null_deref"
proof -
  let ?e = "elem_size c" and ?C = "unat (capacity self)"
  let ?n = "word_of_nat (grow_capacity ?C (?C + 1)) :: u32"
  have "grow_capacity ?C (?C + 1) < 2 ^ 32" using small by (simp add: grow_capacity_eq)
  then have "unat ?n = grow_capacity ?C (?C + 1)" by (rule unat_of_nat_u32)
  then have lt: "capacity self < ?n" using small by (simp add: word_less_nat_alt grow_capacity_eq)
  have g: "array__grow 1 ?e (self, h) = (self\<lparr>contents := None, capacity := ?n\<rparr>, h)"
    using full lt m r
    by (auto simp: array__grow_def array__reserve_def oom_malloc_def oom_realloc_def
        split: option.split)
  have "encode c x \<noteq> []" using codec_okD(1) [OF c] codec_okD(2) [OF c, of x] by auto
  then show ?thesis using g by (simp add: array_push_def mem_store_def)
qed

theorem array_push_oom_witness:
  "array_push u8_codec 9 (full_u8_array\<lparr>malloc := oom_malloc, realloc := oom_realloc\<rparr>, []) =
     Inl Null_deref"
  using array_push_oom [OF u8_codec_ok, where self = "full_u8_array\<lparr>malloc := oom_malloc, realloc := oom_realloc\<rparr>"
      and x = 9 and h = "[]"]
  by (simp add: full_u8_array_def)

end
