(* ===== verification/Array_Machine.thy ===== *)
theory Array_Machine
  imports Array_Ops
begin

text \<open>
  The public interface of \<^verbatim>\<open>src/src/array.h\<close> as a state machine: the mutating macros
  as a datatype of operations, \<open>array_step\<close> dispatching each to its model in
  \<open>Array_Ops\<close>, the guard \<open>op_pre\<close> under which a macro is a defined use of the
  container (the index and size preconditions and the \<^verbatim>\<open>uint32_t\<close> capacity bound),
  and the list machine \<open>list_step\<close> the container promises.  The states reachable
  from \<open>array_new\<close> under guarded operations keep the invariant (rule induction on
  \<open>reachable\<close>), and every guarded run from the empty array refines the list machine.
\<close>

datatype 'a array_op = Push 'a | Insert u32 'a | Grow_by nat | Clear | Delete

text \<open>An allocator that keeps the contracts of \<open>Libc\<close>.\<close>

definition allocator_ok :: "'h allocator \<Rightarrow> bool" where
  "allocator_ok libc \<longleftrightarrow>
     malloc_ok (alloc_malloc libc) \<and> realloc_ok (alloc_realloc libc) \<and>
     never_null (alloc_malloc libc) (alloc_realloc libc)"

fun array_step :: "'a codec \<Rightarrow> 'a array_op \<Rightarrow> 'h state \<Rightarrow> 'h state result" where
  "array_step c (Push x) s = array_push c x s"
| "array_step c (Insert i x) s = array_insert c i x s"
| "array_step c (Grow_by n) s = array_grow_by c n s"
| "array_step c Clear (self, h) = Inr (array_clear self, h)"
| "array_step c Delete s = Inr (array_delete s)"

text \<open>
  The guard of each operation on the concrete state: the precondition of the macro and
  that the capacity it computes fits a \<^verbatim>\<open>uint32_t\<close>.
\<close>

fun op_pre :: "'a array_op \<Rightarrow> 'h void_array \<Rightarrow> bool" where
  "op_pre (Push x) self =
     (unat (size32 self) < unat (capacity self) \<or> unat (capacity self) < 2 ^ 31)"
| "op_pre (Insert i x) self = (unat i \<le> unat (size32 self) \<and> unat (size32 self) + 1 < 2 ^ 32)"
| "op_pre (Grow_by n) self =
     (unat (capacity self) < unat (size32 self) + n \<longrightarrow>
      grow_capacity (unat (capacity self)) (unat (size32 self) + n) < 2 ^ 32)"
| "op_pre Clear self = True"
| "op_pre Delete self = True"

text \<open>The list machine: what each operation does to the sequence of elements.\<close>

fun list_step :: "'a codec \<Rightarrow> 'a array_op \<Rightarrow> 'a list \<Rightarrow> 'a list" where
  "list_step c (Push x) xs = xs @ [x]"
| "list_step c (Insert i x) xs = take (unat i) xs @ [x] @ drop (unat i) xs"
| "list_step c (Grow_by n) xs = xs @ replicate n (elem_zero c)"
| "list_step c Clear xs = []"
| "list_step c Delete xs = []"

text \<open>
  The guard on the list side: positions within the list, and fewer than \<open>2^31\<close>
  elements after the operation, which keeps every capacity the code computes within
  \<^verbatim>\<open>uint32_t\<close>.
\<close>

fun list_pre :: "'a array_op \<Rightarrow> 'a list \<Rightarrow> bool" where
  "list_pre (Push x) xs = (length xs + 1 < 2 ^ 31)"
| "list_pre (Insert i x) xs = (unat i \<le> length xs \<and> length xs + 1 < 2 ^ 31)"
| "list_pre (Grow_by n) xs = (length xs + n < 2 ^ 31)"
| "list_pre Clear xs = True"
| "list_pre Delete xs = True"

text \<open>Running a sequence of operations; the first error ends the run.\<close>

fun array_run :: "'a codec \<Rightarrow> 'a array_op list \<Rightarrow> 'h state \<Rightarrow> 'h state result" where
  "array_run c [] s = Inr s"
| "array_run c (op # ops) s = res_bind (array_step c op s) (array_run c ops)"

fun list_run_ok :: "'a codec \<Rightarrow> 'a array_op list \<Rightarrow> 'a list \<Rightarrow> bool" where
  "list_run_ok c [] xs = True"
| "list_run_ok c (op # ops) xs = (list_pre op xs \<and> list_run_ok c ops (list_step c op xs))"

inductive reachable :: "'a codec \<Rightarrow> 'h state \<Rightarrow> bool" for c :: "'a codec" where
  init: "codec_ok c \<Longrightarrow> allocator_ok libc \<Longrightarrow> reachable c (array_new libc, h)"
| step: "reachable c s \<Longrightarrow> op_pre op (fst s) \<Longrightarrow> array_step c op s = Inr s' \<Longrightarrow> reachable c s'"

inductive_cases reachable_initE: "reachable c (array_new libc, h)"

subsection \<open>Each guarded step\<close>

lemma alloc_sound_array_new: "allocator_ok libc \<Longrightarrow> alloc_sound (array_new libc)"
  by (simp add: allocator_ok_def alloc_sound_def array_new_def)

lemma array_clear_inv: "array_inv c self \<Longrightarrow> array_inv c (array_clear self)"
  by (simp add: array_inv_def array_clear_def va_inv_def array_elems_def decode_elems_def
      split: option.splits)

lemma array_delete_inv:
  "array_inv c (fst (array_delete s)) \<and> same_alloc (fst (array_delete s)) (fst s)"
  by (cases s) (simp add: array_delete_def array__delete_def array_inv_def va_inv_def
      array_elems_def decode_elems_def same_alloc_def)

lemma array_step_correct:
  fixes h :: 'h
  assumes c: "codec_ok c" and inv: "array_inv c self" and al: "alloc_sound self"
    and pre: "op_pre op self"
  shows "\<exists>self' h'. array_step c op (self, h) = Inr (self', h') \<and> array_inv c self' \<and>
           alloc_sound self' \<and> array_elems c self' = list_step c op (array_elems c self)"
proof (cases op)
  case (Push x)
  then show ?thesis using array_push_correct [OF c inv al, of x h] pre same_alloc_sound al
    by fastforce
next
  case (Insert i x)
  then show ?thesis using array_insert_correct [OF c inv al, of i x h] pre same_alloc_sound al
    by fastforce
next
  case (Grow_by n)
  then show ?thesis using array_grow_by_correct [OF c inv al, of n h] pre same_alloc_sound al
    by fastforce
next
  case Clear
  then show ?thesis using array_clear_inv [OF inv] al
    by (simp add: array_clear_def array_elems_def decode_elems_def alloc_sound_def)
next
  case Delete
  then show ?thesis using array_delete_inv [where c = c and s = "(self, h)"] same_alloc_sound al
    by (cases "array_delete (self, h)") (fastforce simp: array_elems_def decode_elems_def
        array_delete_def array__delete_def)
qed

lemma list_pre_op_pre:
  assumes "list_pre op (array_elems c self)"
  shows "op_pre op self"
proof (cases op)
  case (Grow_by n)
  then show ?thesis using assms by (auto simp: grow_capacity_eq)
qed (use assms in auto)

lemma log_allocator_ok: "allocator_ok log_alloc"
  by (simp add: allocator_ok_def log_alloc_def log_malloc_ok log_realloc_ok log_never_null)

subsection \<open>Invariant and refinement\<close>

lemma reachable_wf:
  assumes "reachable c s"
  shows "codec_ok c \<and> array_inv c (fst s) \<and> alloc_sound (fst s)"
  using assms
proof (induction rule: reachable.induct)
  case (init libc h)
  then show ?case by (simp add: array_new_inv alloc_sound_array_new)
next
  case (step s op s')
  obtain self h where s: "s = (self, h)" by (cases s)
  then show ?case
    using step array_step_correct [of c self op h] by auto
qed

text \<open>
  C16. Every state reachable from \<^verbatim>\<open>array_new\<close> with a conforming element type and
  allocator, by operations whose guards hold, is well-formed (the invariant of
  \<^verbatim>\<open>spec.md\<close> \<section>3 together with the typed contents) and still bound to a conforming
  allocator.
\<close>

theorem reachable_invariant:
  assumes "reachable c s"
  shows "codec_ok c \<and> array_inv c (fst s) \<and> alloc_sound (fst s)"
  using assms by (rule reachable_wf)

theorem reachable_invariant_witness:
  "\<exists>s'. array_step u8_codec (Push 1) (array_new log_alloc, []) = Inr s' \<and>
     array_inv u8_codec (fst s') \<and> alloc_sound (fst s')"
proof -
  obtain s' where s': "array_step u8_codec (Push 1) (array_new log_alloc, []) = Inr s'"
    using array_step_correct [OF u8_codec_ok array_new_inv alloc_sound_array_new [OF log_allocator_ok],
        where op = "Push 1" and h = "[]"]
    by auto
  have r0: "reachable u8_codec (array_new log_alloc, [])"
    by (rule reachable.init [OF u8_codec_ok log_allocator_ok])
  have "reachable u8_codec s'"
    using reachable.step [OF r0 _ s'] by simp
  then show ?thesis using reachable_invariant [of u8_codec s'] s' by blast
qed

lemma array_run_correct:
  fixes h :: 'h
  assumes "codec_ok c" and "array_inv c self" and "alloc_sound self"
    and "list_run_ok c ops (array_elems c self)"
  shows "\<exists>self' h'. array_run c ops (self, h) = Inr (self', h') \<and> array_inv c self' \<and>
           array_elems c self' = foldl (\<lambda>xs op. list_step c op xs) (array_elems c self) ops"
  using assms(2-)
proof (induction ops arbitrary: self h)
  case Nil
  then show ?case by simp
next
  case (Cons op ops)
  then have pre: "op_pre op self" by (intro list_pre_op_pre [where c = c]) simp
  obtain self1 h1 where r: "array_step c op (self, h) = Inr (self1, h1)"
    and i1: "array_inv c self1" and a1: "alloc_sound self1"
    and e1: "array_elems c self1 = list_step c op (array_elems c self)"
    using array_step_correct [OF assms(1) Cons.prems(1,2) pre, of h] by blast
  then show ?case using Cons.IH [OF i1 a1, of h1] Cons.prems(3) by simp
qed

text \<open>
  C17. The container implements the list machine: a run of operations from a
  well-formed state, whose guards hold along the run of the list machine, returns
  normally, ends in a well-formed state, and holds the list the list machine computes.
\<close>

theorem array_run_refines:
  fixes h :: 'h
  assumes "codec_ok c" and "array_inv c self" and "alloc_sound self"
    and "list_run_ok c ops (array_elems c self)"
  shows "\<exists>self' h'. array_run c ops (self, h) = Inr (self', h') \<and> array_inv c self' \<and>
           array_elems c self' = foldl (\<lambda>xs op. list_step c op xs) (array_elems c self) ops"
  using assms by (rule array_run_correct)

theorem array_run_refines_witness:
  "\<exists>self' h'. array_run u8_codec [Push 1, Push 2, Push 3, Insert 1 9, Grow_by 2]
       (array_new log_alloc, []) = Inr (self', h') \<and> array_inv u8_codec self' \<and>
     array_elems u8_codec self' = [1, 9, 2, 3, 0, 0]"
  using array_run_refines [OF u8_codec_ok array_new_inv alloc_sound_array_new [OF log_allocator_ok],
      where ops = "[Push 1, Push 2, Push 3, Insert 1 9, Grow_by 2]" and h = "[]"]
  by (simp add: array_new_elems replicate_small)

subsection \<open>Liveness: every list is reachable from every reachable state\<close>

lemma reachable_run:
  assumes "reachable c s" and "list_run_ok c ops (array_elems c (fst s))"
  shows "\<exists>s'. array_run c ops s = Inr s' \<and> reachable c s' \<and>
           array_elems c (fst s') = foldl (\<lambda>xs op. list_step c op xs) (array_elems c (fst s)) ops"
  using assms
proof (induction ops arbitrary: s)
  case Nil
  then show ?case by simp
next
  case (Cons op ops)
  obtain self h where s: "s = (self, h)" by (cases s)
  have wf: "codec_ok c \<and> array_inv c self \<and> alloc_sound self"
    using reachable_wf [OF Cons.prems(1)] s by simp
  have pre: "op_pre op self" using Cons.prems(2) s by (intro list_pre_op_pre [where c = c]) simp
  obtain s1 where r: "array_step c op (self, h) = Inr s1"
    and e1: "array_elems c (fst s1) = list_step c op (array_elems c self)"
    using array_step_correct [of c self op h] wf pre by fastforce
  have "reachable c s1" using reachable.step [OF Cons.prems(1) _ ] r pre s by simp
  then show ?case using Cons.IH [of s1] Cons.prems(2) r e1 s by simp
qed

lemma list_run_ok_pushes:
  "length ys + length xs < 2 ^ 31 \<Longrightarrow> list_run_ok c (map Push xs) ys"
  by (induction xs arbitrary: ys) simp_all

lemma foldl_pushes: "foldl (\<lambda>xs op. list_step c op xs) ys (map Push xs) = ys @ xs"
  by (induction xs arbitrary: ys) simp_all

text \<open>
  C28. The container never gets stuck: from every reachable state, deleting the array
  and pushing the elements of any list of fewer than \<open>2^31\<close> values returns normally
  and reaches a reachable state that holds exactly that list.
\<close>

theorem reachable_live:
  assumes "reachable c s" and "length xs < 2 ^ 31"
  shows "\<exists>s'. array_run c (Delete # map Push xs) s = Inr s' \<and> reachable c s' \<and>
           array_elems c (fst s') = xs"
proof -
  have "list_run_ok c (Delete # map Push xs) (array_elems c (fst s))"
    using assms(2) list_run_ok_pushes [of "[]" xs c] by simp
  from reachable_run [OF assms(1) this] show ?thesis
    using foldl_pushes [of c "[]" xs] by simp
qed

theorem reachable_live_witness:
  "\<exists>s'. array_run u8_codec [Delete, Push 1, Push 2] (array_new log_alloc, []) = Inr s' \<and>
     reachable u8_codec s' \<and> array_elems u8_codec (fst s') = [1, 2]"
  using reachable_live [OF reachable.init [OF u8_codec_ok log_allocator_ok], where xs = "[1, 2]"]
  by simp

end
