(* ===== verification/Array_List.thy ===== *)
theory Array_List
  imports Array_Machine
begin

text \<open>
  The fixed-allocator variant \<^verbatim>\<open>src/src/array_list.h\<close>: the same design as
  \<^verbatim>\<open>array.h\<close>, with a struct of three fields (lines 13--18) and every allocation
  going to the process-wide \<^verbatim>\<open>malloc\<close>, \<^verbatim>\<open>realloc\<close> and \<^verbatim>\<open>free\<close>, which are the
  parameter \<open>libc\<close> of each function here.  The names are those of the source with
  the suffix \<open>_fixed\<close> (the source reuses the names of \<^verbatim>\<open>array.h\<close>).  Its
  \<^verbatim>\<open>array_push\<close> (lines 37--38) increments a field \<^verbatim>\<open>self\<close> that the struct does not
  have and has no meaning to model; the header has no \<^verbatim>\<open>array_grow_by\<close>.  The lemmas
  show that each function is the function of \<^verbatim>\<open>array.h\<close> on the struct bound to the
  default allocator (\<open>bind_alloc\<close>), so every property of \<open>Array_Ops\<close> carries
  over.
\<close>

section \<open>The struct and the macros\<close>

record fixed_array =
  f_contents :: "buffer option"
  f_size32 :: u32
  f_capacity :: u32

type_synonym 'h fixed_state = "fixed_array \<times> 'h"

definition array_init_fixed :: "fixed_array \<Rightarrow> fixed_array" where
  "array_init_fixed self = self\<lparr>f_size32 := 0, f_capacity := 0, f_contents := None\<rparr>"

definition array_new_fixed :: fixed_array where
  "array_new_fixed = \<lparr>f_contents = None, f_size32 = 0, f_capacity = 0\<rparr>"

definition array_get_fixed :: "'a codec \<Rightarrow> fixed_array \<Rightarrow> int \<Rightarrow> 'a result" where
  "array_get_fixed c self index =
     (if \<not> (word_of_int index :: u32) < f_size32 self
      then Inl (Assertion_failed ''(uint32_t) index < (self)->size'')
      else case f_contents self of
        None \<Rightarrow> Inl Null_deref
      | Some b \<Rightarrow>
          if 0 \<le> index \<and> nat index * elem_size c + elem_size c \<le> length b
          then Inr (decode c (take (elem_size c) (drop (nat index * elem_size c) b)))
          else Inl Out_of_bounds)"

definition array_head_fixed :: "'a codec \<Rightarrow> fixed_array \<Rightarrow> 'a result" where
  "array_head_fixed c self = array_get_fixed c self 0"

definition array_last_fixed :: "'a codec \<Rightarrow> fixed_array \<Rightarrow> 'a result" where
  "array_last_fixed c self = array_get_fixed c self (uint (f_size32 self - 1))"

definition array_clear_fixed :: "fixed_array \<Rightarrow> fixed_array" where
  "array_clear_fixed self = self\<lparr>f_size32 := 0\<rparr>"

section \<open>Private functions\<close>

definition array__delete_fixed :: "'h allocator \<Rightarrow> 'h fixed_state \<Rightarrow> 'h fixed_state" where
  "array__delete_fixed libc s =
     (let (self, h) = s;
          h' = alloc_free libc (f_contents self) h
      in (self\<lparr>f_contents := None, f_size32 := 0, f_capacity := 0\<rparr>, h'))"

definition array__reserve_fixed :: "'h allocator \<Rightarrow> nat \<Rightarrow> u32 \<Rightarrow> 'h fixed_state \<Rightarrow> 'h fixed_state" where
  "array__reserve_fixed libc element_size new_capacity s =
     (let (self, h) = s
      in if f_capacity self < new_capacity then
           (let (p, h') =
              (case f_contents self of
                 Some b \<Rightarrow> alloc_realloc libc b (unat new_capacity * element_size) h
               | None \<Rightarrow> alloc_malloc libc (unat new_capacity * element_size) h)
            in (self\<lparr>f_contents := p, f_capacity := new_capacity\<rparr>, h'))
         else (self, h))"

definition array__grow_fixed :: "'h allocator \<Rightarrow> nat \<Rightarrow> nat \<Rightarrow> 'h fixed_state \<Rightarrow> 'h fixed_state" where
  "array__grow_fixed libc margin element_size s =
     (let (self, h) = s;
          new_size = unat (f_size32 self) + margin
      in if unat (f_capacity self) < new_size then
           (let new_capacity = unat (f_capacity self) * 2 mod 2 ^ 32;
                new_capacity = (if new_capacity < 8 then 8 else new_capacity);
                new_capacity = (if new_capacity < new_size then new_size else new_capacity)
            in array__reserve_fixed libc element_size (word_of_nat new_capacity) (self, h))
         else (self, h))"

definition array__splice_fixed :: "'h allocator \<Rightarrow>
    nat \<Rightarrow> u32 \<Rightarrow> u32 \<Rightarrow> u32 \<Rightarrow> byte list option \<Rightarrow> 'h fixed_state \<Rightarrow> 'h fixed_state result" where
  "array__splice_fixed libc element_size index old_count new_count elements s =
     (let (self, h) = s;
          new_size = f_size32 self + new_count - old_count;
          old_end = index + old_count;
          new_end = index + new_count
      in if \<not> old_end \<le> f_size32 self
         then Inl (Assertion_failed ''old_end <= self->size'')
         else
           (let (self, h) = array__reserve_fixed libc element_size new_size (self, h)
            in res_bind
                 (if old_end < f_size32 self
                  then memmove (f_contents self) (unat new_end * element_size)
                         (unat old_end * element_size) (unat (f_size32 self - old_end) * element_size)
                  else Inr (f_contents self))
                 (\<lambda>p. res_bind
                   (if 0 < new_count then
                      (case elements of
                         Some src \<Rightarrow> memcpy p (unat index * element_size) src (unat new_count * element_size)
                       | None \<Rightarrow> memset p (unat index * element_size) 0 (unat new_count * element_size))
                    else Inr p)
                   (\<lambda>p. Inr (self\<lparr>f_contents := p, f_size32 := f_size32 self + (new_count - old_count)\<rparr>, h)))))"

definition array_delete_fixed :: "'h allocator \<Rightarrow> 'h fixed_state \<Rightarrow> 'h fixed_state" where
  "array_delete_fixed libc s = array__delete_fixed libc s"

definition array_insert_fixed ::
  "'h allocator \<Rightarrow> 'a codec \<Rightarrow> u32 \<Rightarrow> 'a \<Rightarrow> 'h fixed_state \<Rightarrow> 'h fixed_state result" where
  "array_insert_fixed libc c index element s =
     array__splice_fixed libc (elem_size c) index 0 1 (Some (encode c element)) s"

section \<open>Correspondence with the allocator-parameterized variant\<close>

text \<open>The struct of \<^verbatim>\<open>array.h\<close> holding the same fields, bound to the default allocator.\<close>

definition bind_alloc :: "'h allocator \<Rightarrow> fixed_array \<Rightarrow> 'h void_array" where
  "bind_alloc libc self =
     \<lparr>contents = f_contents self, size32 = f_size32 self, capacity = f_capacity self,
      malloc = alloc_malloc libc, realloc = alloc_realloc libc, free = alloc_free libc\<rparr>"

definition bind_state :: "'h allocator \<Rightarrow> 'h fixed_state \<Rightarrow> 'h state" where
  "bind_state libc s = (bind_alloc libc (fst s), snd s)"

definition bind_result :: "'h allocator \<Rightarrow> 'h fixed_state result \<Rightarrow> 'h state result" where
  "bind_result libc r = map_sum id (bind_state libc) r"

lemma bind_alloc_fields [simp]:
  "contents (bind_alloc libc self) = f_contents self"
  "size32 (bind_alloc libc self) = f_size32 self"
  "capacity (bind_alloc libc self) = f_capacity self"
  "malloc (bind_alloc libc self) = alloc_malloc libc"
  "realloc (bind_alloc libc self) = alloc_realloc libc"
  "free (bind_alloc libc self) = alloc_free libc"
  by (simp_all add: bind_alloc_def)

lemma bind_alloc_update [simp]:
  "bind_alloc libc (self\<lparr>f_contents := p\<rparr>) = (bind_alloc libc self)\<lparr>contents := p\<rparr>"
  "bind_alloc libc (self\<lparr>f_size32 := n\<rparr>) = (bind_alloc libc self)\<lparr>size32 := n\<rparr>"
  "bind_alloc libc (self\<lparr>f_capacity := n\<rparr>) = (bind_alloc libc self)\<lparr>capacity := n\<rparr>"
  by (simp_all add: bind_alloc_def)

lemma bind_result_simps [simp]:
  "bind_result libc (Inl e) = Inl e"
  "bind_result libc (Inr s) = Inr (bind_state libc s)"
  "bind_state libc (self, h) = (bind_alloc libc self, h)"
  by (simp_all add: bind_result_def bind_state_def)

lemma bind_result_res_bind:
  "bind_result libc (res_bind r f) = res_bind r (\<lambda>x. bind_result libc (f x))"
  by (cases r) simp_all

lemma array__delete_fixed_eq:
  "bind_state libc (array__delete_fixed libc (self, h)) = array__delete (bind_alloc libc self, h)"
  by (simp add: array__delete_fixed_def array__delete_def)

lemma array__reserve_fixed_eq:
  "bind_state libc (array__reserve_fixed libc e n (self, h)) = array__reserve e n (bind_alloc libc self, h)"
  by (simp add: array__reserve_fixed_def array__reserve_def split: option.split prod.split)

lemma array__grow_fixed_eq:
  "bind_state libc (array__grow_fixed libc margin e (self, h)) =
     array__grow margin e (bind_alloc libc self, h)"
  by (simp add: array__grow_fixed_def array__grow_def grow_capacity_def array__reserve_fixed_eq Let_def)

lemma array__splice_fixed_eq:
  "bind_result libc (array__splice_fixed libc e index old_count new_count elements (self, h)) =
     array__splice e index old_count new_count elements (bind_alloc libc self, h)"
proof -
  obtain self1 h1 where r: "array__reserve_fixed libc e (f_size32 self + new_count - old_count) (self, h) =
      (self1, h1)"
    by (cases "array__reserve_fixed libc e (f_size32 self + new_count - old_count) (self, h)")
  have r': "array__reserve e (f_size32 self + new_count - old_count) (bind_alloc libc self, h) =
      (bind_alloc libc self1, h1)"
    using array__reserve_fixed_eq [of libc e "f_size32 self + new_count - old_count" self h] r by simp
  have sz: "f_size32 self1 = f_size32 self"
    using array__reserve_fields(1) [of e "f_size32 self + new_count - old_count" "(bind_alloc libc self, h)"] r'
    by simp
  show ?thesis
    using r r' sz
    by (simp add: array__splice_fixed_def array__splice_def Let_def bind_result_res_bind
        split: option.split)
qed

lemma array_fixed_macros_eq:
  "bind_alloc libc (array_init_fixed self) = array_init libc (bind_alloc libc self)"
  "bind_alloc libc array_new_fixed = array_new libc"
  "array_get_fixed c self i = array_get c (bind_alloc libc self) i"
  "array_head_fixed c self = array_head c (bind_alloc libc self)"
  "array_last_fixed c self = array_last c (bind_alloc libc self)"
  "bind_alloc libc (array_clear_fixed self) = array_clear (bind_alloc libc self)"
  by (simp_all add: array_init_fixed_def array_init_def bind_alloc_def array_new_fixed_def
      array_new_def array_get_fixed_def array_get_def array_head_fixed_def array_head_def
      array_last_fixed_def array_last_def array_clear_fixed_def array_clear_def)

lemma array_delete_fixed_eq:
  "bind_state libc (array_delete_fixed libc (self, h)) = array_delete (bind_alloc libc self, h)"
  by (simp add: array_delete_fixed_def array_delete_def array__delete_fixed_eq)

lemma array_insert_fixed_eq:
  "bind_result libc (array_insert_fixed libc c index x (self, h)) =
     array_insert c index x (bind_alloc libc self, h)"
  by (simp add: array_insert_fixed_def array_insert_def array__splice_fixed_eq)

section \<open>Properties\<close>

text \<open>
  C18. Every function of \<^verbatim>\<open>array_list.h\<close> that has a meaning is the function of the
  same name in \<^verbatim>\<open>array.h\<close> on the struct bound to the process-wide allocator:
  construction, access, clear, delete, insert and the four private functions agree
  on every state, in their result and in the allocator calls they make.
\<close>

theorem array_list_equiv:
  "bind_alloc libc (array_init_fixed self) = array_init libc (bind_alloc libc self) \<and>
   bind_alloc libc array_new_fixed = array_new libc \<and>
   array_get_fixed c self i = array_get c (bind_alloc libc self) i \<and>
   array_head_fixed c self = array_head c (bind_alloc libc self) \<and>
   array_last_fixed c self = array_last c (bind_alloc libc self) \<and>
   bind_alloc libc (array_clear_fixed self) = array_clear (bind_alloc libc self) \<and>
   bind_state libc (array_delete_fixed libc (self, h)) = array_delete (bind_alloc libc self, h) \<and>
   bind_result libc (array_insert_fixed libc c index x (self, h)) =
     array_insert c index x (bind_alloc libc self, h) \<and>
   bind_state libc (array__delete_fixed libc (self, h)) = array__delete (bind_alloc libc self, h) \<and>
   bind_state libc (array__reserve_fixed libc e n (self, h)) =
     array__reserve e n (bind_alloc libc self, h) \<and>
   bind_state libc (array__grow_fixed libc margin e (self, h)) =
     array__grow margin e (bind_alloc libc self, h) \<and>
   bind_result libc (array__splice_fixed libc e index old_count new_count elements (self, h)) =
     array__splice e index old_count new_count elements (bind_alloc libc self, h)"
  by (simp add: array_fixed_macros_eq array_delete_fixed_eq array_insert_fixed_eq
      array__delete_fixed_eq array__reserve_fixed_eq array__grow_fixed_eq array__splice_fixed_eq)

lemma alloc_sound_bind_alloc: "allocator_ok libc \<Longrightarrow> alloc_sound (bind_alloc libc self)"
  by (simp add: allocator_ok_def alloc_sound_def)

lemma bind_alloc_inj: "bind_alloc libc a = bind_alloc libc b \<longleftrightarrow> a = b"
  by (auto simp: bind_alloc_def)

text \<open>
  C19. \<^verbatim>\<open>array_insert\<close> of \<^verbatim>\<open>array_list.h\<close>, with a conforming process allocator,
  \<open>index <= size\<close> and room for one more \<^verbatim>\<open>uint32_t\<close> element, returns normally,
  keeps the invariant and inserts the element at \<open>index\<close>.
\<close>

theorem array_insert_fixed_elems:
  fixes h :: 'h
  assumes c: "codec_ok c" and libc: "allocator_ok libc" and inv: "array_inv c (bind_alloc libc self)"
    and idx: "unat index \<le> unat (f_size32 self)" and room: "unat (f_size32 self) + 1 < 2 ^ 32"
  shows "\<exists>self' h'. array_insert_fixed libc c index x (self, h) = Inr (self', h') \<and>
           array_inv c (bind_alloc libc self') \<and>
           array_elems c (bind_alloc libc self') =
             take (unat index) (array_elems c (bind_alloc libc self)) @ [x] @
             drop (unat index) (array_elems c (bind_alloc libc self))"
proof -
  obtain v h' where ins: "array_insert c index x (bind_alloc libc self, h) = Inr (v, h')"
    and i': "array_inv c v" and sa: "same_alloc v (bind_alloc libc self)"
    and el: "array_elems c v = take (unat index) (array_elems c (bind_alloc libc self)) @ [x] @
             drop (unat index) (array_elems c (bind_alloc libc self))"
    using array_insert_correct [OF c inv alloc_sound_bind_alloc [OF libc], of index x h] idx room
    by auto
  obtain self' h'' where f: "array_insert_fixed libc c index x (self, h) = Inr (self', h'')"
    and vb: "v = bind_alloc libc self'" and hh: "h'' = h'"
    using array_insert_fixed_eq [of libc c index x self h] ins
    by (cases "array_insert_fixed libc c index x (self, h)") auto
  show ?thesis using f vb hh i' el by blast
qed

definition ex_u8_fixed :: fixed_array where
  "ex_u8_fixed = \<lparr>f_contents = Some [1, 2, 3, 0, 0, 0, 0, 0], f_size32 = 3, f_capacity = 8\<rparr>"

lemma ex_u8_fixed_bind: "bind_alloc log_alloc ex_u8_fixed = ex_u8_array"
  by (simp add: bind_alloc_def ex_u8_fixed_def ex_u8_array_def log_alloc_def)

theorem array_insert_fixed_elems_witness:
  "\<exists>self' h'. array_insert_fixed log_alloc u8_codec 1 9 (ex_u8_fixed, []) = Inr (self', h') \<and>
     array_inv u8_codec (bind_alloc log_alloc self') \<and>
     array_elems u8_codec (bind_alloc log_alloc self') = [1, 9, 2, 3]"
  using array_insert_fixed_elems [OF u8_codec_ok log_allocator_ok, where self = ex_u8_fixed and index = 1
      and h = "[]" and x = 9]
    ex_u8_array_inv_typed ex_u8_array_elems
  by (simp add: ex_u8_fixed_bind) (simp add: ex_u8_fixed_def)

section \<open>The fixed-allocator variant as a state machine\<close>

text \<open>The operations \<^verbatim>\<open>array_list.h\<close> offers that change the array.\<close>

datatype 'a fixed_op = Insert_fixed u32 'a | Clear_fixed | Delete_fixed

fun to_array_op :: "'a fixed_op \<Rightarrow> 'a array_op" where
  "to_array_op (Insert_fixed i x) = Insert i x"
| "to_array_op Clear_fixed = Clear"
| "to_array_op Delete_fixed = Delete"

fun array_step_fixed ::
  "'h allocator \<Rightarrow> 'a codec \<Rightarrow> 'a fixed_op \<Rightarrow> 'h fixed_state \<Rightarrow> 'h fixed_state result" where
  "array_step_fixed libc c (Insert_fixed i x) s = array_insert_fixed libc c i x s"
| "array_step_fixed libc c Clear_fixed (self, h) = Inr (array_clear_fixed self, h)"
| "array_step_fixed libc c Delete_fixed s = Inr (array_delete_fixed libc s)"

fun array_run_fixed ::
  "'h allocator \<Rightarrow> 'a codec \<Rightarrow> 'a fixed_op list \<Rightarrow> 'h fixed_state \<Rightarrow> 'h fixed_state result" where
  "array_run_fixed libc c [] s = Inr s"
| "array_run_fixed libc c (op # ops) s = res_bind (array_step_fixed libc c op s) (array_run_fixed libc c ops)"

lemma array_step_fixed_eq:
  "bind_result libc (array_step_fixed libc c op (self, h)) = array_step c (to_array_op op) (bind_alloc libc self, h)"
  by (cases op) (simp_all add: array_insert_fixed_eq array_delete_fixed_eq array_fixed_macros_eq)

lemma array_run_fixed_eq:
  "bind_result libc (array_run_fixed libc c ops (self, h)) =
     array_run c (map to_array_op ops) (bind_alloc libc self, h)"
proof (induction ops arbitrary: self h)
  case Nil
  then show ?case by simp
next
  case (Cons op ops)
  show ?case
  proof (cases "array_step_fixed libc c op (self, h)")
    case (Inl e)
    then show ?thesis using array_step_fixed_eq [of libc c op self h, symmetric] by simp
  next
    case (Inr s)
    then show ?thesis using array_step_fixed_eq [of libc c op self h, symmetric] Cons.IH [of "fst s" "snd s"]
      by (simp add: bind_state_def)
  qed
qed

text \<open>
  C31. The fixed-allocator variant implements the list machine: a run of its inserts,
  clears and deletes from a well-formed array bound to a conforming process allocator,
  whose list-side guards hold, returns normally, ends well-formed and holds the list
  the list machine computes (the equivalence C18 composed with the refinement C17).
\<close>

theorem array_run_fixed_refines:
  fixes h :: 'h
  assumes c: "codec_ok c" and libc: "allocator_ok libc" and inv: "array_inv c (bind_alloc libc self)"
    and ok: "list_run_ok c (map to_array_op ops) (array_elems c (bind_alloc libc self))"
  shows "\<exists>self' h'. array_run_fixed libc c ops (self, h) = Inr (self', h') \<and>
           array_inv c (bind_alloc libc self') \<and>
           array_elems c (bind_alloc libc self') =
             foldl (\<lambda>xs op. list_step c op xs) (array_elems c (bind_alloc libc self)) (map to_array_op ops)"
proof -
  obtain v h' where r: "array_run c (map to_array_op ops) (bind_alloc libc self, h) = Inr (v, h')"
    and rest: "array_inv c v \<and>
      array_elems c v = foldl (\<lambda>xs op. list_step c op xs) (array_elems c (bind_alloc libc self)) (map to_array_op ops)"
    using array_run_correct [OF c inv alloc_sound_bind_alloc [OF libc] ok, of h] by blast
  obtain self' h'' where f: "array_run_fixed libc c ops (self, h) = Inr (self', h'')"
    and "v = bind_alloc libc self'"
    using array_run_fixed_eq [of libc c ops self h] r
    by (cases "array_run_fixed libc c ops (self, h)") auto
  then show ?thesis using rest by blast
qed

theorem array_run_fixed_refines_witness:
  "\<exists>self' h'. array_run_fixed log_alloc u8_codec [Insert_fixed 1 9, Clear_fixed, Insert_fixed 0 5]
       (ex_u8_fixed, []) = Inr (self', h') \<and>
     array_inv u8_codec (bind_alloc log_alloc self') \<and> array_elems u8_codec (bind_alloc log_alloc self') = [5]"
  using array_run_fixed_refines [OF u8_codec_ok log_allocator_ok, where self = ex_u8_fixed
      and ops = "[Insert_fixed 1 9, Clear_fixed, Insert_fixed 0 5]" and h = "[]"]
    ex_u8_array_inv_typed ex_u8_array_elems
  by (simp add: ex_u8_fixed_bind)

end
