(* ===== verification/Array_Growth.thy ===== *)
theory Array_Growth
  imports Array_Machine
begin

text \<open>
  The cost of growth (\<^verbatim>\<open>spec.md\<close> \<section>4 and \<section>8): \<open>n\<close> pushes onto an empty array
  bound to the logging allocator of \<open>Libc\<close>, which records every call.  The log is
  one \<^verbatim>\<open>malloc\<close> of 8 elements followed by \<^verbatim>\<open>realloc\<close>s that each double the block,
  so the number of allocator calls is logarithmic in \<open>n\<close>, the bytes the reallocations
  move are fewer than \<open>2 n\<close> elements, and the capacity stays below \<open>2 n\<close> (or 8).
\<close>

text \<open>The calls of the doubling schedule: \<open>malloc(8)\<close>, then \<open>k\<close> doublings.\<close>

definition grow_log :: "nat \<Rightarrow> nat \<Rightarrow> alloc_event list" where
  "grow_log e k = Ev_malloc (8 * e) # map (\<lambda>i. Ev_realloc (8 * 2 ^ i * e) (8 * 2 ^ Suc i * e)) [0..<k]"

text \<open>The bytes a list of allocator calls copies: \<^verbatim>\<open>realloc\<close> moves the old block.\<close>

definition realloc_copied :: "alloc_event list \<Rightarrow> nat" where
  "realloc_copied evs = sum_list (map (\<lambda>ev. case ev of Ev_realloc old new \<Rightarrow> old | _ \<Rightarrow> 0) evs)"

lemma array_run_append:
  "array_run c (ops1 @ ops2) s = res_bind (array_run c ops1 s) (array_run c ops2)"
  by (induction ops1 arbitrary: s) (simp_all add: res_bind_def split: sum.split)

lemma array__grow_full_log:
  assumes inv: "va_inv e self" and b: "contents self = Some b" and r: "realloc self = log_realloc"
    and full: "size32 self = capacity self" and c8: "8 \<le> unat (capacity self)"
    and fit: "2 * unat (capacity self) < 2 ^ 32"
  shows "unat (capacity (fst (array__grow 1 e (self, h)))) = 2 * unat (capacity self) \<and>
         snd (array__grow 1 e (self, h)) =
           h @ [Ev_realloc (unat (capacity self) * e) (2 * unat (capacity self) * e)] \<and>
         malloc (fst (array__grow 1 e (self, h))) = malloc self \<and>
         realloc (fst (array__grow 1 e (self, h))) = realloc self"
proof -
  let ?C = "unat (capacity self)"
  have g: "grow_capacity ?C (unat (size32 self) + 1) = 2 * ?C"
    using full c8 fit by (simp add: grow_capacity_eq)
  have w: "unat (word_of_nat (2 * ?C) :: u32) = 2 * ?C" by (rule unat_of_nat_u32 [OF fit])
  then have lt: "capacity self < word_of_nat (2 * ?C)" using c8 by (simp add: word_less_nat_alt)
  have lb: "length b = ?C * e" using va_invD(2) [OF inv] b by simp
  show ?thesis
    using g w lt b r full lb
    by (simp add: array__grow_def array__reserve_def log_realloc_def)
qed

text \<open>The state after \<open>n > 0\<close> pushes: capacity \<open>8 * 2^k\<close>, the log \<open>grow_log e k\<close>.\<close>

definition push_schedule :: "'a codec \<Rightarrow> 'a list \<Rightarrow> alloc_event list state \<Rightarrow> bool" where
  "push_schedule c xs s \<longleftrightarrow>
     (\<exists>k. snd s = grow_log (elem_size c) k \<and> unat (capacity (fst s)) = 8 * 2 ^ k \<and>
        length xs \<le> 8 * 2 ^ k \<and> (k = 0 \<or> 8 * 2 ^ k < 2 * length xs)) \<and>
     array_inv c (fst s) \<and> malloc (fst s) = log_malloc \<and> realloc (fst s) = log_realloc \<and>
     array_elems c (fst s) = xs"

lemma array__grow_new_log:
  "array__grow 1 e (array_new log_alloc, []) =
     ((array_new log_alloc)\<lparr>contents := Some (replicate (8 * e) 0), capacity := 8\<rparr>, [Ev_malloc (8 * e)])"
  by (simp add: array__grow_def grow_capacity_def array__reserve_def array_new_def log_alloc_def
      log_malloc_def)

lemma push_schedule_base:
  assumes c: "codec_ok c"
  shows "\<exists>s. array_run c [Push x] (array_new log_alloc, []) = Inr s \<and> push_schedule c [x] s"
proof -
  obtain self' h' where r: "array_push c x (array_new log_alloc, []) = Inr (self', h')"
    and i: "array_inv c self'" and sa: "same_alloc self' (array_new log_alloc)"
    and el: "array_elems c self' = array_elems c (array_new log_alloc) @ [x]"
    using array_push_correct [OF c array_new_inv alloc_sound_array_new [OF log_allocator_ok],
        where x = x and h = "[]"]
    by auto
  have "capacity self' = 8 \<and> h' = [Ev_malloc (8 * elem_size c)]"
    using array_push_grow [OF r] array__grow_new_log [of "elem_size c"] by simp
  moreover have "array_elems c self' = [x]" using el by (simp add: array_new_elems)
  ultimately have "push_schedule c [x] (self', h')"
    using i sa unfolding push_schedule_def
    by (auto simp: same_alloc_def array_new_def log_alloc_def grow_log_def
        intro!: exI [where x = 0])
  then show ?thesis using r by simp
qed

lemma push_schedule_step:
  assumes c: "codec_ok c" and sch: "push_schedule c xs (self, h)" and ne: "xs \<noteq> []"
    and n: "length xs + 1 \<le> 2 ^ 31"
  shows "\<exists>s. array_push c x (self, h) = Inr s \<and> push_schedule c (xs @ [x]) s"
proof -
  let ?e = "elem_size c" and ?n = "length xs"
  obtain k where hk: "h = grow_log ?e k" and C: "unat (capacity self) = 8 * 2 ^ k"
    and le: "?n \<le> 8 * 2 ^ k" and tight: "k = 0 \<or> 8 * 2 ^ k < 2 * ?n"
    and inv: "array_inv c self" and m: "malloc self = log_malloc" and rl: "realloc self = log_realloc"
    and el: "array_elems c self = xs"
    using sch unfolding push_schedule_def by auto
  have al: "alloc_sound self" using m rl by (simp add: alloc_sound_def log_malloc_ok log_realloc_ok log_never_null)
  have S: "unat (size32 self) = ?n" using el length_array_elems [of c self] by simp
  have room: "unat (size32 self) < unat (capacity self) \<or> unat (capacity self) < 2 ^ 31"
    using S C le n by linarith
  obtain self' h' where r: "array_push c x (self, h) = Inr (self', h')"
    and i': "array_inv c self'" and sa: "same_alloc self' self"
    and el': "array_elems c self' = xs @ [x]"
    using array_push_correct [OF c inv al room, where x = x and h = h] el by auto
  have gr: "capacity self' = capacity (fst (array__grow 1 ?e (self, h))) \<and>
            h' = snd (array__grow 1 ?e (self, h))"
    using array_push_grow [OF r] by simp
  have ml: "malloc self' = log_malloc \<and> realloc self' = log_realloc"
    using sa m rl by (simp add: same_alloc_def)
  show ?thesis
  proof (cases "?n < 8 * 2 ^ k")
    case True
    then have "array__grow 1 ?e (self, h) = (self, h)"
      using S C by (intro array__grow_noop) simp
    then have "push_schedule c (xs @ [x]) (self', h')"
      using gr hk C True tight i' ml el' unfolding push_schedule_def by auto
    then show ?thesis using r by blast
  next
    case False
    then have full: "size32 self = capacity self" using S C le by (simp add: word_unat_eq_iff)
    have "capacity self \<noteq> 0" using C by (auto simp: unat_eq_zero)
    then obtain b where b: "contents self = Some b"
      using va_invD(3) [of ?e self] inv by (cases "contents self") (auto simp: array_inv_def)
    have va: "va_inv ?e self" using inv by (simp add: array_inv_def)
    have fit: "2 * unat (capacity self) < 2 ^ 32" using C le n False by simp
    have c8: "8 \<le> unat (capacity self)" using C by simp
    have g: "unat (capacity self') = 2 * (8 * 2 ^ k) \<and>
             h' = h @ [Ev_realloc (8 * 2 ^ k * ?e) (2 * (8 * 2 ^ k) * ?e)]"
      using array__grow_full_log [OF va b rl full c8 fit, where h = h] gr C by simp
    have "h' = grow_log ?e (Suc k)" using g hk by (simp add: grow_log_def mult_ac)
    moreover have "unat (capacity self') = 8 * 2 ^ Suc k" using g by simp
    moreover have "length (xs @ [x]) \<le> 8 * 2 ^ Suc k \<and> 8 * 2 ^ Suc k < 2 * length (xs @ [x])"
      using False le by simp
    ultimately have "push_schedule c (xs @ [x]) (self', h')"
      using i' ml el' unfolding push_schedule_def fst_conv snd_conv by blast
    then show ?thesis using r by blast
  qed
qed

lemma push_schedule_run:
  assumes c: "codec_ok c" and ne: "xs \<noteq> []" and n: "length xs \<le> 2 ^ 31"
  shows "\<exists>s. array_run c (map Push xs) (array_new log_alloc, []) = Inr s \<and> push_schedule c xs s"
  using ne n
proof (induction xs rule: rev_induct)
  case Nil
  then show ?case by simp
next
  case (snoc x xs)
  show ?case
  proof (cases "xs = []")
    case True
    then show ?thesis using push_schedule_base [OF c] by simp
  next
    case False
    then obtain self h where r: "array_run c (map Push xs) (array_new log_alloc, []) = Inr (self, h)"
      and sch: "push_schedule c xs (self, h)"
      using snoc by auto
    obtain s where "array_push c x (self, h) = Inr s" "push_schedule c (xs @ [x]) s"
      using push_schedule_step [OF c sch False, of x] snoc.prems(2) by auto
    then show ?thesis using r by (simp add: array_run_append)
  qed
qed

lemma length_grow_log [simp]: "length (grow_log e k) = Suc k"
  by (simp add: grow_log_def)

lemma realloc_copied_grow_log: "realloc_copied (grow_log e k) + 8 * e = 8 * 2 ^ k * e"
  by (induction k) (simp_all add: grow_log_def realloc_copied_def)

lemma push_scheduleE:
  assumes "push_schedule c xs (self, h)"
  obtains k where "h = grow_log (elem_size c) k" "unat (capacity self) = 8 * 2 ^ k"
    "length xs \<le> 8 * 2 ^ k" "k = 0 \<or> 8 * 2 ^ k < 2 * length xs" "array_elems c self = xs"
  using assms unfolding push_schedule_def by auto

subsection \<open>Amortized bounds\<close>

text \<open>
  C20. \<open>n > 0\<close> pushes (at most \<open>2^31\<close>) onto an empty array call the allocator
  \<open>m\<close> times, one \<^verbatim>\<open>malloc\<close> of 8 elements followed by \<^verbatim>\<open>realloc\<close>s that double the
  block, with \<open>2^m <= max 2 (n div 2)\<close>: the number of reservations is \<open>O(log n)\<close>.
\<close>

theorem push_allocations_log:
  assumes "codec_ok c" and "xs \<noteq> []" and "length xs \<le> 2 ^ 31"
  shows "\<exists>self h. array_run c (map Push xs) (array_new log_alloc, []) = Inr (self, h) \<and>
           array_elems c self = xs \<and> h = grow_log (elem_size c) (length h - 1) \<and>
           2 ^ length h \<le> max 2 (length xs div 2)"
proof -
  obtain self h where r: "array_run c (map Push xs) (array_new log_alloc, []) = Inr (self, h)"
    and sch: "push_schedule c xs (self, h)"
    using push_schedule_run [OF assms] by auto
  obtain k where hk: "h = grow_log (elem_size c) k" and tight: "k = 0 \<or> 8 * 2 ^ k < 2 * length xs"
    and el: "array_elems c self = xs"
    using sch by (rule push_scheduleE)
  have "2 ^ Suc k \<le> max 2 (length xs div 2)"
  proof (cases k)
    case (Suc j)
    then have "2 * 2 ^ Suc k \<le> length xs" using tight by simp
    then show ?thesis by (simp add: less_eq_div_iff_mult_less_eq mult.commute le_max_iff_disj)
  qed simp
  then show ?thesis using r hk el by simp
qed

theorem push_allocations_log_witness:
  "\<exists>self h. array_run u8_codec (map Push [1, 2, 3]) (array_new log_alloc, []) = Inr (self, h) \<and>
     array_elems u8_codec self = [1, 2, 3] \<and> h = grow_log 1 (length h - 1) \<and> 2 ^ length h \<le> (2 :: nat)"
  using push_allocations_log [OF u8_codec_ok, of "[1, 2, 3]"]
  by (simp add: numeral_2_eq_2 [symmetric] numeral_3_eq_3 [symmetric])

text \<open>
  C21. Over the same \<open>n\<close> pushes the reallocations move fewer than \<open>2 n\<close> elements'
  bytes in total: the copying cost of push is amortized \<open>O(1)\<close>.
\<close>

theorem push_realloc_copies:
  assumes c: "codec_ok c" and "xs \<noteq> []" and "length xs \<le> 2 ^ 31"
  shows "\<exists>self h. array_run c (map Push xs) (array_new log_alloc, []) = Inr (self, h) \<and>
           array_elems c self = xs \<and> realloc_copied h < 2 * length xs * elem_size c"
proof -
  obtain self h where r: "array_run c (map Push xs) (array_new log_alloc, []) = Inr (self, h)"
    and sch: "push_schedule c xs (self, h)"
    using push_schedule_run [OF assms] by auto
  obtain k where hk: "h = grow_log (elem_size c) k" and tight: "k = 0 \<or> 8 * 2 ^ k < 2 * length xs"
    and el: "array_elems c self = xs"
    using sch by (rule push_scheduleE)
  have e: "0 < elem_size c" using codec_okD(1) [OF c] .
  have eq: "realloc_copied h + 8 * elem_size c = 8 * 2 ^ k * elem_size c"
    using hk realloc_copied_grow_log by simp
  have "realloc_copied h < 2 * length xs * elem_size c"
  proof (cases k)
    case 0
    then show ?thesis using eq e assms(2) by simp
  next
    case (Suc j)
    then have "8 * 2 ^ k * elem_size c < 2 * length xs * elem_size c" using tight e by simp
    then show ?thesis using eq by linarith
  qed
  then show ?thesis using r el by blast
qed

theorem push_realloc_copies_witness:
  "\<exists>self h. array_run u8_codec (map Push [1, 2, 3]) (array_new log_alloc, []) = Inr (self, h) \<and>
     array_elems u8_codec self = [1, 2, 3] \<and> realloc_copied h < 6"
  using push_realloc_copies [OF u8_codec_ok, of "[1, 2, 3]"]
  by (simp add: numeral_2_eq_2 [symmetric] numeral_3_eq_3 [symmetric])

text \<open>
  C22. After the same \<open>n\<close> pushes the capacity holds the elements and is below
  \<open>max 9 (2 n)\<close>: the block is never more than twice as large as needed beyond the
  first 8 elements.
\<close>

theorem push_capacity_bound:
  assumes "codec_ok c" and "xs \<noteq> []" and "length xs \<le> 2 ^ 31"
  shows "\<exists>self h. array_run c (map Push xs) (array_new log_alloc, []) = Inr (self, h) \<and>
           array_elems c self = xs \<and> length xs \<le> unat (capacity self) \<and>
           unat (capacity self) < max 9 (2 * length xs)"
proof -
  obtain self h where r: "array_run c (map Push xs) (array_new log_alloc, []) = Inr (self, h)"
    and sch: "push_schedule c xs (self, h)"
    using push_schedule_run [OF assms] by auto
  obtain k where C: "unat (capacity self) = 8 * 2 ^ k" and le: "length xs \<le> 8 * 2 ^ k"
    and tight: "k = 0 \<or> 8 * 2 ^ k < 2 * length xs" and el: "array_elems c self = xs"
    using sch by (rule push_scheduleE)
  have "unat (capacity self) < max 9 (2 * length xs)" using C tight by (auto simp: less_max_iff_disj)
  then show ?thesis using r el C le by auto
qed

theorem push_capacity_bound_witness:
  "\<exists>self h. array_run u8_codec (map Push [1, 2, 3]) (array_new log_alloc, []) = Inr (self, h) \<and>
     array_elems u8_codec self = [1, 2, 3] \<and> 3 \<le> unat (capacity self) \<and> unat (capacity self) < 9"
  using push_capacity_bound [OF u8_codec_ok, of "[1, 2, 3]"]
  by (simp add: numeral_2_eq_2 [symmetric] numeral_3_eq_3 [symmetric])

end
