(* ===== verification/Array_Roundtrip.thy ===== *)
theory Array_Roundtrip
  imports Array_Limits
begin

text \<open>
  Round trips between the writing and the reading macros of \<^verbatim>\<open>src/src/array.h\<close>:
  what \<^verbatim>\<open>array_push\<close> and \<^verbatim>\<open>array_insert\<close> store, \<^verbatim>\<open>array_get\<close> reads back, and
  the other elements read as before; and the error path of \<^verbatim>\<open>array_insert\<close> at an
  index past the end.
\<close>

lemma array_get_elems:
  assumes "array_inv c self" and "0 \<le> i" and "i < uint (size32 self)"
  shows "array_get c self i = Inr (array_elems c self ! nat i)"
  using assms array_get_Inr [of c self i] by (simp add: array_inv_def)

lemma unat_size_of_elems:
  "array_elems c self' = ys \<Longrightarrow> unat (size32 self') = length ys"
  using length_array_elems [of c self'] by simp

text \<open>
  Reading a well-formed array whose elements are those of another with \<open>x\<close> inserted
  at position \<open>k\<close>: position \<open>k\<close> holds \<open>x\<close>, positions below read as before, and
  positions from \<open>k\<close> on read the old element one place to the left.
\<close>

lemma array_get_insert_at:
  assumes inv: "array_inv c self" and inv': "array_inv c self'"
    and k: "k \<le> length (array_elems c self)"
    and el: "array_elems c self' = take k (array_elems c self) @ [x] @ drop k (array_elems c self)"
  shows "array_get c self' (int k) = Inr x \<and>
         (\<forall>i. 0 \<le> i \<and> i < int k \<longrightarrow> array_get c self' i = array_get c self i) \<and>
         (\<forall>i. int k \<le> i \<and> i < uint (size32 self) \<longrightarrow> array_get c self' (i + 1) = array_get c self i)"
proof -
  let ?xs = "array_elems c self" and ?n = "length (array_elems c self)"
  have u: "uint (size32 self) = int ?n" by (metis uint_nat length_array_elems)
  have "unat (size32 self') = ?n + 1" using length_array_elems [of c self'] el k by simp
  then have u': "uint (size32 self') = int ?n + 1" unfolding uint_nat by simp
  have lk: "length (take k ?xs) = k" using k by simp
  have "int k \<le> uint (size32 self)" using k u by linarith
  then have kl: "int k < uint (size32 self')" using u' by simp
  have "array_elems c self' ! k = x" unfolding el using lk by (simp add: nth_append)
  then have "array_get c self' (int k) = Inr x"
    using array_get_elems [OF inv' _ kl] by simp
  moreover have "array_get c self' i = array_get c self i" if "0 \<le> i" "i < int k" for i
  proof -
    have lt: "i < uint (size32 self)" "i < uint (size32 self')" using that \<open>int k \<le> uint (size32 self)\<close> kl
      by linarith+
    have "nat i < k" using that by auto
    then have "array_elems c self' ! nat i = ?xs ! nat i" unfolding el using lk by (simp add: nth_append)
    then show ?thesis using array_get_elems [OF inv' that(1) lt(2)] array_get_elems [OF inv that(1) lt(1)]
      by simp
  qed
  moreover have "array_get c self' (i + 1) = array_get c self i"
    if "int k \<le> i" "i < uint (size32 self)" for i
  proof -
    have i0: "0 \<le> i" and ki: "k \<le> nat i" and ni: "nat (i + 1) = Suc (nat i)" using that by auto
    have lt: "i + 1 < uint (size32 self')" using that(2) u u' by linarith
    have iS: "nat i < length ?xs" using nat_less_unat [OF i0 that(2)] by simp
    have "array_elems c self' ! Suc (nat i) = ?xs ! nat i"
      unfolding el using lk ki iS by (simp add: nth_append Suc_diff_le)
    then show ?thesis
      using array_get_elems [OF inv' _ lt] array_get_elems [OF inv i0 that(2)] i0 ni by simp
  qed
  ultimately show ?thesis by blast
qed

text \<open>
  C23. After \<^verbatim>\<open>array_push(self, x)\<close> under the conditions of C1, \<^verbatim>\<open>array_get\<close> at
  the old size returns \<open>x\<close>, and at every smaller index returns what it returned before.
\<close>

theorem array_push_get:
  fixes h :: 'h
  assumes c: "codec_ok c" and inv: "array_inv c self" and al: "alloc_sound self"
    and room: "unat (size32 self) < unat (capacity self) \<or> unat (capacity self) < 2 ^ 31"
  shows "\<exists>self' h'. array_push c x (self, h) = Inr (self', h') \<and>
           array_get c self' (uint (size32 self)) = Inr x \<and>
           (\<forall>i. 0 \<le> i \<and> i < uint (size32 self) \<longrightarrow> array_get c self' i = array_get c self i)"
proof -
  obtain self' h' where r: "array_push c x (self, h) = Inr (self', h')"
    and i': "array_inv c self'" and el: "array_elems c self' = array_elems c self @ [x]"
    using array_push_correct [OF c inv al room, where x = x and h = h] by auto
  have "uint (size32 self) = int (length (array_elems c self))"
    by (metis uint_nat length_array_elems)
  then show ?thesis
    using array_get_insert_at [OF inv i', of "length (array_elems c self)" x] el r by auto
qed

theorem array_push_get_witness:
  "\<exists>self' h'. array_push u8_codec 7 (ex_u8_array, []) = Inr (self', h') \<and>
     array_get u8_codec self' 3 = Inr 7 \<and>
     (\<forall>i. 0 \<le> i \<and> i < 3 \<longrightarrow> array_get u8_codec self' i = array_get u8_codec ex_u8_array i)"
  using array_push_get [OF u8_codec_ok ex_u8_array_inv_typed ex_states_sound(1),
      where x = 7 and h = "[]"]
  by (simp add: ex_u8_array_def)

text \<open>
  C24. After \<^verbatim>\<open>array_insert(self, index, x)\<close> under the conditions of C2,
  \<^verbatim>\<open>array_get\<close> at \<open>index\<close> returns \<open>x\<close>, below \<open>index\<close> what it returned before, and
  above it what it returned one place to the left.
\<close>

theorem array_insert_get:
  fixes h :: 'h and index :: u32
  assumes c: "codec_ok c" and inv: "array_inv c self" and al: "alloc_sound self"
    and idx: "unat index \<le> unat (size32 self)" and room: "unat (size32 self) + 1 < 2 ^ 32"
  shows "\<exists>self' h'. array_insert c index x (self, h) = Inr (self', h') \<and>
           array_get c self' (uint index) = Inr x \<and>
           (\<forall>i. 0 \<le> i \<and> i < uint index \<longrightarrow> array_get c self' i = array_get c self i) \<and>
           (\<forall>i. uint index \<le> i \<and> i < uint (size32 self) \<longrightarrow>
              array_get c self' (i + 1) = array_get c self i)"
proof -
  obtain self' h' where r: "array_insert c index x (self, h) = Inr (self', h')"
    and i': "array_inv c self'"
    and el: "array_elems c self' =
             take (unat index) (array_elems c self) @ [x] @ drop (unat index) (array_elems c self)"
    using array_insert_correct [OF c inv al idx room, where x = x and h = h] by auto
  have "unat index \<le> length (array_elems c self)" using idx by simp
  then show ?thesis
    using array_get_insert_at [OF inv i' _ el] r by simp
qed

theorem array_insert_get_witness:
  "\<exists>self' h'. array_insert u8_codec 1 9 (ex_u8_array, []) = Inr (self', h') \<and>
     array_get u8_codec self' 1 = Inr 9 \<and>
     (\<forall>i. 0 \<le> i \<and> i < 1 \<longrightarrow> array_get u8_codec self' i = array_get u8_codec ex_u8_array i) \<and>
     (\<forall>i. 1 \<le> i \<and> i < 3 \<longrightarrow> array_get u8_codec self' (i + 1) = array_get u8_codec ex_u8_array i)"
  using array_insert_get [OF u8_codec_ok ex_u8_array_inv_typed ex_states_sound(1),
      where index = 1 and x = 9 and h = "[]"]
  by (simp add: ex_u8_array_def)

text \<open>
  C25. \<^verbatim>\<open>array_insert\<close> at an index past the size fails the assertion
  \<^verbatim>\<open>old_end <= self->size\<close> of \<^verbatim>\<open>array__splice\<close> (the contract violation of
  \<^verbatim>\<open>spec.md\<close> \<section>7), before any allocation or write.
\<close>

theorem array_insert_out_of_range:
  assumes "unat (size32 self) < unat index"
  shows "array_insert c index x (self, h) = Inl (Assertion_failed ''old_end <= self->size'')"
  using assms array__splice_assert [of self index 0] by (simp add: array_insert_def)

theorem array_insert_out_of_range_witness:
  "array_insert u8_codec 4 9 (ex_u8_array, []) = Inl (Assertion_failed ''old_end <= self->size'')"
  using array_insert_out_of_range [of ex_u8_array 4 u8_codec 9 "[]"] by (simp add: ex_u8_array_def)

end
