(* ===== verification/Spec2Isabelle.thy ===== *)
theory Spec2Isabelle
  imports Array_Limits Array_Machine Array_List Array_Growth Array_Roundtrip
begin

text \<open>
  \<^bold>\<open>Verification of asclib/array.\<close>
  The repository is a growable contiguous array for C, written as macros over one
  struct layout: \<^verbatim>\<open>src/src/array.h\<close> binds each instance to an allocator through three
  function pointers stored in the struct; \<^verbatim>\<open>src/src/array_list.h\<close> is the same design
  with the process-wide \<^verbatim>\<open>malloc\<close>, \<^verbatim>\<open>realloc\<close> and \<^verbatim>\<open>free\<close>.  Every public macro
  (\<^verbatim>\<open>array_init\<close>, \<^verbatim>\<open>array_new\<close>, \<^verbatim>\<open>array_get\<close>, \<^verbatim>\<open>array_head\<close>,
  \<^verbatim>\<open>array_last\<close>, \<^verbatim>\<open>array_clear\<close>, \<^verbatim>\<open>array_delete\<close>, \<^verbatim>\<open>array_push\<close>,
  \<^verbatim>\<open>array_insert\<close>, \<^verbatim>\<open>array_grow_by\<close>) expands to field accesses and calls of four
  private functions on the struct seen as an untyped \<^verbatim>\<open>VoidArray\<close>:
  \<^verbatim>\<open>array__delete\<close>, \<^verbatim>\<open>array__reserve\<close>, \<^verbatim>\<open>array__grow\<close> (growth policy, calls
  reserve) and \<^verbatim>\<open>array__splice\<close> (remove and insert a run, calls reserve,
  \<^verbatim>\<open>memmove\<close>, \<^verbatim>\<open>memcpy\<close>, \<^verbatim>\<open>memset\<close>).

  \<^bold>\<open>Theories.\<close>
  \<^item> \<open>Prelude\<close>: machine types (\<open>byte = 8 word\<close>, \<open>u32 = 32 word\<close>, a block is a
    \<open>byte list\<close>), the error type (\<open>Assertion_failed\<close>, \<open>Null_deref\<close>,
    \<open>Out_of_bounds\<close>) and \<open>'a result = error + 'a\<close> with \<open>res_bind\<close>, list lemmas on
    \<open>overwrite\<close> (a block with a segment replaced) and \<open>u32\<close> arithmetic lemmas.
  \<^item> \<open>Libc\<close>: the C library the code calls, from the C standard (not repository code):
    bounds-checked \<open>mem_store\<close>, \<open>memmove\<close>, \<open>memcpy\<close>, \<open>memset\<close> on a
    \<open>buffer option\<close> (\<open>None\<close> is \<open>NULL\<close>); allocator hooks as functions on an
    allocator state \<open>'h\<close>, their contracts \<open>malloc_ok\<close>, \<open>realloc_ok\<close>,
    \<open>never_null\<close>, and a logging allocator (\<open>log_alloc\<close>) for concrete runs.
  \<^item> \<open>Void_Array\<close>: the struct as the record \<open>void_array\<close> (\<open>contents\<close>,
    \<open>size32\<close> for the field \<^verbatim>\<open>size\<close>, \<open>capacity\<close>, the three hooks, read through
    \<open>array__malloc\<close>, \<open>array__realloc\<close>, \<open>array__free\<close>); a state is the record
    with the allocator state.  \<open>array__delete\<close>, \<open>array__reserve\<close>,
    \<open>grow_capacity\<close>/\<open>array__grow\<close> and \<open>array__splice\<close> translate the functions of
    the same names (\<^verbatim>\<open>array.h\<close> lines 61--124) at byte level, with the element size a
    parameter.  Lemmas: the byte invariant \<open>va_inv\<close> (\<open>size <= capacity\<close>,
    \<open>contents\<close> is \<open>NULL\<close> iff \<open>capacity = 0\<close>, the block holds \<open>capacity\<close>
    elements) is kept by reserve, grow and splice under a sound allocator; the exact
    layout of the block after a splice (\<open>array__splice_bytes\<close>); the assertion of
    splice and when it fails; every normal return of a private function is
    well-formed (\<open>array__splice_Inr_inv\<close>, \<open>array__grow_inv\<close>).
  \<^item> \<open>Codec\<close>: the element type \<^verbatim>\<open>T\<close> as a codec (size, encoding, decoding);
    \<open>codec_ok\<close> and the lemmas that a run of encodings decodes back.
  \<^item> \<open>Array_Ops\<close>: each public macro of \<^verbatim>\<open>array.h\<close> (lines 23--49) as the
    composition it expands to; the abstraction \<open>array_elems\<close> (the first \<open>size\<close>
    decoded elements) and the typed invariant \<open>array_inv\<close>.  Claims C1--C8:
    push, insert and grow_by implement append, insert-at and append-zeros on
    \<open>array_elems\<close> and keep the invariant (a functional refinement); get, head and
    last return the element or fail the assertion; delete resets to the empty state;
    clear keeps the capacity so that a following push does not allocate; the
    \<^verbatim>\<open>uint32_t\<close> cast in the assertion of get but not in its access.
  \<^item> \<open>Array_Limits\<close>: the edges, claims C9--C15, C26, C27 and C29--C30, C32: the
    \<^verbatim>\<open>unsigned int\<close> doubling of the capacity in \<open>array__grow\<close>, which wraps from
    capacity \<open>2^31\<close> on, so that a full array grows by one element per push instead of
    doubling (C15), and the \<^verbatim>\<open>uint32_t\<close> conversion of the new capacity, which at
    capacity \<open>2^32 - 1\<close> becomes 0 so that the push writes past the block (C9); the
    \<^verbatim>\<open>uint32_t\<close> wrap of
    \<open>index + old_count\<close>, which lets a malformed splice pass its assertion; the exact
    growth policy \<open>max 8 (2 * capacity) needed\<close> below \<open>2^31\<close>; insert reserving exactly one more
    element; removal by splice; a \<open>NULL\<close> return of the allocator breaking the
    invariant; \<^verbatim>\<open>array_grow_by\<close> with \<open>size + count >= 2^32\<close> always faulting in
    its \<^verbatim>\<open>memset\<close>; and the well-formedness of every normal return of the
    private functions under a conforming allocator; a push that must grow under an
    out-of-memory allocator writing through \<open>NULL\<close>; the general splice (replace a
    range by copied or zero-filled elements) as a refinement with its exact capacity;
    the first insert into an empty array allocating exactly one element.
  \<^item> \<open>Array_Machine\<close>: the interface as a state machine, claims C16--C17 and
    C28: the
    datatype \<open>array_op\<close> of the mutating macros, \<open>array_step\<close> dispatching each to
    its model, the guards \<open>op_pre\<close> (preconditions and the \<^verbatim>\<open>uint32_t\<close> bound on
    the computed capacity), the list machine \<open>list_step\<close> with its guard
    \<open>list_pre\<close>, runs \<open>array_run\<close>, and the inductive \<open>reachable\<close>.  Every
    reachable state is well-formed (rule induction), and every run whose list-side
    guards hold refines the list machine (induction on the run).  Liveness: from
    every reachable state some guarded run (delete, then pushes) reaches any list of
    fewer than \<open>2^31\<close> elements.
  \<^item> \<open>Array_List\<close>: \<^verbatim>\<open>src/src/array_list.h\<close>, claims C18--C19 and C31: the record
    \<open>fixed_array\<close> (the struct without hooks) and every function of the header with
    the suffix \<open>_fixed\<close>, the process-wide allocator being a parameter \<open>libc\<close>.
    \<open>bind_alloc\<close> maps a struct to the \<^verbatim>\<open>array.h\<close> struct bound to \<open>libc\<close>; each
    function equals its \<^verbatim>\<open>array.h\<close> counterpart under it (an equivalence), so the
    properties carry over, shown for \<open>array_insert_fixed\<close>; its operations as a
    machine (\<open>fixed_op\<close>, \<open>array_run_fixed\<close>) whose guarded runs refine the list
    machine of \<open>Array_Machine\<close> (C31).
  \<^item> \<open>Array_Growth\<close>: amortized cost, claims C20--C22: \<open>n\<close> pushes onto an empty
    array bound to the logging allocator produce exactly the log \<open>grow_log\<close> (one
    \<^verbatim>\<open>malloc\<close> of 8 elements and \<open>k\<close> doubling \<^verbatim>\<open>realloc\<close>s, \<open>push_schedule\<close>),
    hence \<open>O(log n)\<close> allocator calls, fewer than \<open>2 n\<close> elements copied, and a
    capacity below \<open>max 9 (2 n)\<close>.
  \<^item> \<open>Array_Roundtrip\<close>: claims C23--C25: \<open>array_get\<close> reads back what
    \<open>array_push\<close> and \<open>array_insert\<close> stored and the other elements as before;
    insert past the size fails the assertion.
  \<^item> This theory: the worked example of \<^verbatim>\<open>spec.md\<close> \<section>8 run on the model, a
    concrete trace checked by evaluation (no claim).

  \<^bold>\<open>Bounds.\<close>
  The fields and the \<^verbatim>\<open>uint32_t\<close> parameters are 32-bit words, so their sums wrap as
  in C.  \<^verbatim>\<open>size_t\<close> values are unbounded naturals, which is exact for a 64-bit
  \<^verbatim>\<open>size_t\<close> where the value is a sum or product of \<^verbatim>\<open>uint32_t\<close> values and an
  element size that is computed in \<^verbatim>\<open>size_t\<close> (byte counts, \<open>size + margin\<close>).
  Arithmetic the source does in \<^verbatim>\<open>unsigned int\<close> before widening is written with its
  wrap: \<open>capacity * 2\<close> in \<^verbatim>\<open>array__grow\<close> (both headers) is \<open>cap * 2 mod 2^32\<close>.  The
  conversions of the source are written out: \<open>word_of_nat\<close> where a \<^verbatim>\<open>size_t\<close> is
  passed as a \<^verbatim>\<open>uint32_t\<close>, \<open>unat\<close> where a \<^verbatim>\<open>uint32_t\<close> is widened.  No loop
  occurs in the code (copies are the library calls), so no fuel is needed and every
  operation is a total function; the only repetition is a sequence of calls, modelled
  by \<open>array_run\<close> by structural recursion on the list of operations.  The doubling
  bounds of \<open>Array_Growth\<close> hold for up to \<open>2^31\<close> pushes, the largest count whose
  doubling schedule does not wrap.  The list-side guard of \<open>Array_Machine\<close> keeps
  fewer than \<open>2^31\<close> elements: then every capacity \<open>array__grow\<close> computes is below
  \<open>2^32\<close> and the overflow of C9 cannot occur.

  \<^bold>\<open>Not modelled.\<close>
  \<^verbatim>\<open>array_push\<close> of \<^verbatim>\<open>array_list.h\<close> (lines 37--38), which increments a field
  \<^verbatim>\<open>self\<close> the struct does not have and so has no meaning; the \<^verbatim>\<open>#include\<close>s and
  \<^verbatim>\<open>extern "C"\<close> guards; the \<^verbatim>\<open>NDEBUG\<close> build, where assertions are
  compiled out and a violated precondition is undefined behaviour (the model is the
  checked build); the C library itself, whose contracts are assumed as stated in
  \<open>Libc\<close>; element types whose zero value is not the all-zero byte pattern.
\<close>

section \<open>The example of the specification\<close>

text \<open>A \<^verbatim>\<open>uint8_t\<close> array bound to the logging allocator, as the example runs it.\<close>

abbreviation u8_state :: "byte list \<Rightarrow> u32 \<Rightarrow> u32 \<Rightarrow> alloc_event list void_array" where
  "u8_state b n cap \<equiv>
     \<lparr>contents = Some b, size32 = n, capacity = cap,
      malloc = log_malloc, realloc = log_realloc, free = log_free\<rparr>"

lemma spec_example_push1:
  "array_push u8_codec 1 (array_new log_alloc, []) =
     Inr (u8_state [1, 0, 0, 0, 0, 0, 0, 0] 1 8, [Ev_malloc 8])"
  by (simp add: array_push_def array__grow_def grow_capacity_def array__reserve_def array_new_def
      log_alloc_def log_malloc_def mem_store_def overwrite_def u8_codec_def replicate_small)

lemma spec_example_push23:
  "array_push u8_codec 2 (u8_state [1, 0, 0, 0, 0, 0, 0, 0] 1 8, h) =
     Inr (u8_state [1, 2, 0, 0, 0, 0, 0, 0] 2 8, h)"
  "array_push u8_codec 3 (u8_state [1, 2, 0, 0, 0, 0, 0, 0] 2 8, h) =
     Inr (u8_state [1, 2, 3, 0, 0, 0, 0, 0] 3 8, h)"
  by (simp_all add: array_push_def array__grow_def mem_store_def overwrite_def u8_codec_def)

lemma spec_example_insert:
  "array_insert u8_codec 1 9 (u8_state [1, 2, 3, 0, 0, 0, 0, 0] 3 8, h) =
     Inr (u8_state [1, 9, 2, 3, 0, 0, 0, 0] 4 8, h)"
  by (simp add: array_insert_def array__splice_def array__reserve_def memmove_def memcpy_def
      mem_store_def overwrite_def u8_codec_def)

lemma spec_example_grow_by:
  "array_grow_by u8_codec 2 (u8_state [1, 9, 2, 3, 0, 0, 0, 0] 4 8, h) =
     Inr (u8_state [1, 9, 2, 3, 0, 0, 0, 0] 6 8, h)"
  by (simp add: array_grow_by_def array__grow_def memset_def mem_store_def overwrite_def
      u8_codec_def replicate_small)


lemma spec_example_elems:
  "array_elems u8_codec (u8_state [1, 2, 3, 0, 0, 0, 0, 0] 3 8) = [1, 2, 3]"
  "array_elems u8_codec (u8_state [1, 9, 2, 3, 0, 0, 0, 0] 4 8) = [1, 9, 2, 3]"
  "array_elems u8_codec (u8_state [1, 9, 2, 3, 0, 0, 0, 0] 6 8) = [1, 9, 2, 3, 0, 0]"
  by (simp_all add: array_elems_def decode_elems_def u8_codec_def upt_rec)

text \<open>
  The example of \<^verbatim>\<open>spec.md\<close> \<section>8: from an empty array, pushing 1, 2, 3 gives
  \<open>[1, 2, 3]\<close>, inserting 9 at index 1 gives \<open>[1, 9, 2, 3]\<close>, growing by 2 gives
  \<open>[1, 9, 2, 3, 0, 0]\<close> with capacity 8, clearing gives size 0 and keeps capacity 8,
  and deleting gives the empty array again, after exactly one allocation and one free.
  It is a concrete run of the model, checked by evaluation, not a property.
\<close>

theorem spec_example_trace:
  "res_bind (array_push u8_codec 1 (array_new log_alloc, [])) (\<lambda>s1.
   res_bind (array_push u8_codec 2 s1) (\<lambda>s2.
   res_bind (array_push u8_codec 3 s2) (\<lambda>s3.
   res_bind (array_insert u8_codec 1 9 s3) (\<lambda>s4.
   res_bind (array_grow_by u8_codec 2 s4) (\<lambda>s5.
     Inr (array_elems u8_codec (fst s3), array_elems u8_codec (fst s4),
          array_elems u8_codec (fst s5), capacity (fst s5),
          size32 (array_clear (fst s5)), capacity (array_clear (fst s5)),
          array_delete (array_clear (fst s5), snd s5)))))))
   = Inr ([1, 2, 3], [1, 9, 2, 3], [1, 9, 2, 3, 0, 0], 8, 0, 8,
          (array_new log_alloc, [Ev_malloc 8, Ev_free]))"
  unfolding spec_example_push1 res_bind_Inr spec_example_push23 spec_example_insert
    spec_example_grow_by fst_conv snd_conv
  by (simp add: spec_example_elems array_clear_def array_delete_def array__delete_def array_new_def
      log_alloc_def log_free_def)
end
